theory Spec2Isabelle
  imports Complex_Main "HOL-Library.AList"
begin

section \<open>Numbers, dates and price tables\<close>

text \<open>
  The notebook computes on IEEE double-precision numbers. The embedding keeps the special
  values that numpy produces without raising (a missing cell of a DataFrame is \<open>NaN\<close>, a
  division by a zero price gives an infinity) and takes the finite values as exact rationals:
  rounding to 53 bits, overflow and the sign of zero are not modelled. Every counterexample
  below uses values on which the double-precision computation is exact.
\<close>

datatype float64 = Fin rat | PInf | NInf | NaN

fun fadd :: "float64 \<Rightarrow> float64 \<Rightarrow> float64" where
  "fadd NaN _ = NaN"
| "fadd _ NaN = NaN"
| "fadd (Fin a) (Fin b) = Fin (a + b)"
| "fadd PInf NInf = NaN"
| "fadd NInf PInf = NaN"
| "fadd PInf _ = PInf"
| "fadd _ PInf = PInf"
| "fadd NInf _ = NInf"
| "fadd _ NInf = NInf"

fun fmul :: "float64 \<Rightarrow> float64 \<Rightarrow> float64" where
  "fmul NaN _ = NaN"
| "fmul _ NaN = NaN"
| "fmul (Fin a) (Fin b) = Fin (a * b)"
| "fmul PInf (Fin b) = (if b = 0 then NaN else if 0 < b then PInf else NInf)"
| "fmul NInf (Fin b) = (if b = 0 then NaN else if 0 < b then NInf else PInf)"
| "fmul (Fin a) PInf = (if a = 0 then NaN else if 0 < a then PInf else NInf)"
| "fmul (Fin a) NInf = (if a = 0 then NaN else if 0 < a then NInf else PInf)"
| "fmul PInf PInf = PInf"
| "fmul NInf NInf = PInf"
| "fmul PInf NInf = NInf"
| "fmul NInf PInf = NInf"

fun fdiv :: "float64 \<Rightarrow> float64 \<Rightarrow> float64" where
  "fdiv NaN _ = NaN"
| "fdiv _ NaN = NaN"
| "fdiv (Fin a) (Fin b) =
     (if b \<noteq> 0 then Fin (a / b)
      else if a = 0 then NaN else if 0 < a then PInf else NInf)"
| "fdiv (Fin a) PInf = Fin 0"
| "fdiv (Fin a) NInf = Fin 0"
| "fdiv PInf (Fin b) = (if 0 \<le> b then PInf else NInf)"
| "fdiv NInf (Fin b) = (if 0 \<le> b then NInf else PInf)"
| "fdiv PInf _ = NaN"
| "fdiv NInf _ = NaN"

text \<open>
  Modelled from the spec: the index entries are pandas \<open>Timestamp\<close>s, which are not part of
  the source. A date of the daily index is a day number (days since 1970-01-01), and the
  field \<open>day\<close> that the simulator tests is the day of the month of that day in the
  proleptic Gregorian calendar.
\<close>

definition day_of_month :: "int \<Rightarrow> int" where
  "day_of_month d =
     (let z = d + 719468;
          doe = z mod 146097;
          yoe = (doe - doe div 1460 + doe div 36524 - doe div 146096) div 365;
          doy = doe - (365 * yoe + yoe div 4 - yoe div 100);
          mp = (5 * doy + 2) div 153
      in doy - (153 * mp + 2) div 5 + 1)"

text \<open>
  A DataFrame of prices: the column names, and one row of cells per index entry, in index
  order. A well-formed frame has as many cells in every row as it has columns. \<open>iloc0\<close>
  is \<open>df.iloc[0][col]\<close> and \<open>loc\<close> is \<open>df.loc[day][col]\<close>, on an index without
  repeated dates; the first fails on an empty table, both fail on a column the table does
  not have.
\<close>

record frame =
  columns :: "string list"
  rows :: "(int \<times> float64 list) list"

definition wf_frame :: "frame \<Rightarrow> bool" where
  "wf_frame df = (\<forall>r \<in> set (rows df). length (snd r) = length (columns df))"

datatype error =
    InvalidWeightsError
  | DataAvailabilityError string int
  | NoObjectsError
  | IndexError
  | KeyError

text \<open>
  \<open>InvalidWeightsError\<close> is the \<open>ValueError("tickers weights should sum up to 1")\<close> of
  \<open>get_portfolio\<close>; \<open>DataAvailabilityError t d\<close> is the
  \<open>ValueError(f"{ticker} data only available from {first_date}")\<close> of \<open>load_data\<close>;
  \<open>NoObjectsError\<close> is what \<open>pd.concat\<close> raises on an empty list.
\<close>

definition bind_err :: "error + 'a \<Rightarrow> ('a \<Rightarrow> error + 'b) \<Rightarrow> error + 'b" where
  "bind_err m f = (case m of Inl e \<Rightarrow> Inl e | Inr v \<Rightarrow> f v)"

definition getitem :: "(string \<times> 'a) list \<Rightarrow> string \<Rightarrow> error + 'a" where
  "getitem d k = (case map_of d k of None \<Rightarrow> Inl KeyError | Some v \<Rightarrow> Inr v)"

definition iloc0 :: "frame \<Rightarrow> string \<Rightarrow> error + float64" where
  "iloc0 df col =
     (case rows df of [] \<Rightarrow> Inl IndexError
      | r # _ \<Rightarrow> getitem (zip (columns df) (snd r)) col)"

definition loc :: "frame \<Rightarrow> int \<Rightarrow> string \<Rightarrow> error + float64" where
  "loc df day col =
     (case map_of (rows df) day of None \<Rightarrow> Inl KeyError
      | Some r \<Rightarrow> getitem (zip (columns df) r) col)"

section \<open>The ledger simulator\<close>

text \<open>
  The working \<open>record\<close> of \<open>get_portfolio\<close> is a dict with the keys \<open>date\<close>,
  \<open>{ticker}_price\<close> and \<open>{ticker}_shares\<close> for every ticker, \<open>amount_invested\<close> and
  \<open>portfolio_value\<close>. A key ending in \<open>_price\<close> is never one ending in \<open>_shares\<close> and
  neither is one of the three fixed keys, so the dict is a record whose price and share
  entries are association lists keyed by ticker, in insertion order. The argument
  \<open>tickers\<close> is the dict of weights, an association list with distinct keys.
\<close>

record ledger =
  date :: int
  price :: "(string \<times> float64) list"
  shares :: "(string \<times> float64) list"
  amount_invested :: rat
  portfolio_value :: float64

definition get_number_of_shares :: "rat \<Rightarrow> float64 \<Rightarrow> rat \<Rightarrow> float64" where
  "get_number_of_shares amount p weight = fmul (fdiv (Fin amount) p) (Fin weight)"

fun first_prices :: "(string \<times> rat) list \<Rightarrow> frame \<Rightarrow> error + (string \<times> float64) list" where
  "first_prices [] df = Inr []"
| "first_prices ((t, w) # ts) df =
     bind_err (iloc0 df (t @ ''_price'')) (\<lambda>p.
     bind_err (first_prices ts df) (\<lambda>ps. Inr ((t, p) # ps)))"

fun first_shares ::
  "(string \<times> rat) list \<Rightarrow> frame \<Rightarrow> rat \<Rightarrow> error + (string \<times> float64) list" where
  "first_shares [] df initial_amount = Inr []"
| "first_shares ((t, w) # ts) df initial_amount =
     bind_err (iloc0 df (t @ ''_price'')) (\<lambda>p.
     bind_err (first_shares ts df initial_amount) (\<lambda>ss.
       Inr ((t, get_number_of_shares initial_amount p w) # ss)))"

definition first_record :: "(string \<times> rat) list \<Rightarrow> frame \<Rightarrow> rat \<Rightarrow> error + ledger" where
  "first_record tickers df initial_amount =
     (case rows df of [] \<Rightarrow> Inl IndexError
      | r # _ \<Rightarrow>
          bind_err (first_prices tickers df) (\<lambda>ps.
          bind_err (first_shares tickers df initial_amount) (\<lambda>ss.
            Inr \<lparr>date = fst r, price = ps, shares = ss,
                 amount_invested = initial_amount,
                 portfolio_value = Fin initial_amount\<rparr>)))"

fun update_prices :: "(string \<times> rat) list \<Rightarrow> frame \<Rightarrow> int \<Rightarrow> ledger \<Rightarrow> error + ledger" where
  "update_prices [] df day rec = Inr rec"
| "update_prices ((t, w) # ts) df day rec =
     bind_err (loc df day (t @ ''_price'')) (\<lambda>p.
       update_prices ts df day (rec\<lparr>price := AList.update t p (price rec)\<rparr>))"

fun buy_more_shares :: "(string \<times> rat) list \<Rightarrow> rat \<Rightarrow> ledger \<Rightarrow> error + ledger" where
  "buy_more_shares [] monthly_addition rec = Inr rec"
| "buy_more_shares ((t, w) # ts) monthly_addition rec =
     bind_err (getitem (shares rec) t) (\<lambda>s.
     bind_err (getitem (price rec) t) (\<lambda>p.
       buy_more_shares ts monthly_addition
         (rec\<lparr>shares := AList.update t
            (fadd s (get_number_of_shares monthly_addition p w)) (shares rec)\<rparr>)))"

fun revalue :: "(string \<times> rat) list \<Rightarrow> ledger \<Rightarrow> error + ledger" where
  "revalue [] rec = Inr rec"
| "revalue ((t, w) # ts) rec =
     bind_err (getitem (shares rec) t) (\<lambda>s.
     bind_err (getitem (price rec) t) (\<lambda>p.
       revalue ts (rec\<lparr>portfolio_value := fadd (portfolio_value rec) (fmul s p)\<rparr>)))"

text \<open>The body of the loop over the days, up to the append.\<close>

definition day_step ::
  "(string \<times> rat) list \<Rightarrow> frame \<Rightarrow> rat \<Rightarrow> int \<Rightarrow> ledger \<Rightarrow> error + ledger" where
  "day_step tickers df monthly_addition day rec =
     bind_err (update_prices tickers df day (rec\<lparr>date := day\<rparr>)) (\<lambda>rec1.
     bind_err
       (if day_of_month day = 1
        then bind_err (buy_more_shares tickers monthly_addition rec1) (\<lambda>rec2.
               Inr (rec2\<lparr>amount_invested := amount_invested rec2 + monthly_addition\<rparr>))
        else Inr rec1) (\<lambda>rec3.
     revalue tickers (rec3\<lparr>portfolio_value := Fin 0\<rparr>)))"

fun loop_days ::
  "(string \<times> rat) list \<Rightarrow> frame \<Rightarrow> rat \<Rightarrow> int list \<Rightarrow> ledger \<Rightarrow> ledger list
     \<Rightarrow> error + ledger list" where
  "loop_days tickers df monthly_addition [] rec records = Inr records"
| "loop_days tickers df monthly_addition (day # days) rec records =
     bind_err (day_step tickers df monthly_addition day rec) (\<lambda>rec'.
       loop_days tickers df monthly_addition days rec' (records @ [rec']))"

definition get_portfolio ::
  "(string \<times> rat) list \<Rightarrow> frame \<Rightarrow> rat \<Rightarrow> rat \<Rightarrow> error + ledger list" where
  "get_portfolio tickers df initial_amount monthly_addition =
     (if sum_list (map snd tickers) \<noteq> 1 then Inl InvalidWeightsError
      else bind_err (first_record tickers df initial_amount) (\<lambda>rec.
             loop_days tickers df monthly_addition (map fst (rows df)) rec []))"

text \<open>
  The source keeps one dict \<open>record\<close>, mutates it every day and appends \<open>copy(record)\<close>
  to \<open>records\<close>. The same function once more with the objects made explicit: the store
  is the list of the dicts allocated so far, an address is a position in it, \<open>record\<close> is
  the object at address 0, \<open>copy\<close> allocates a new object with the entries of the old one
  (the entries are immutable numbers), and \<open>records\<close> is a list of addresses. The
  DataFrame built at the end reads every address of \<open>records\<close> in the final store.
\<close>

fun loop_days_store ::
  "(string \<times> rat) list \<Rightarrow> frame \<Rightarrow> rat \<Rightarrow> int list \<Rightarrow> ledger list \<times> nat list
     \<Rightarrow> error + ledger list \<times> nat list" where
  "loop_days_store tickers df monthly_addition [] st = Inr st"
| "loop_days_store tickers df monthly_addition (day # days) st =
     bind_err (day_step tickers df monthly_addition day (fst st ! 0)) (\<lambda>rec'.
       let store1 = (fst st)[0 := rec'];
           store2 = store1 @ [store1 ! 0]
       in loop_days_store tickers df monthly_addition days
            (store2, snd st @ [length store1]))"

definition get_portfolio_store ::
  "(string \<times> rat) list \<Rightarrow> frame \<Rightarrow> rat \<Rightarrow> rat \<Rightarrow> error + ledger list \<times> nat list" where
  "get_portfolio_store tickers df initial_amount monthly_addition =
     (if sum_list (map snd tickers) \<noteq> 1 then Inl InvalidWeightsError
      else bind_err (first_record tickers df initial_amount) (\<lambda>rec.
             loop_days_store tickers df monthly_addition (map fst (rows df)) ([rec], [])))"

definition read_records :: "ledger list \<times> nat list \<Rightarrow> ledger list" where
  "read_records st = map (\<lambda>a. fst st ! a) (snd st)"

section \<open>The resampler\<close>

text \<open>
  Modelled from the spec: \<open>resample("1D").last()\<close> and \<open>fillna(method="ffill")\<close> are
  pandas functions and not part of the source. The first puts the table on the daily
  calendar from its earliest to its latest date, each day holding per column the last
  observed (non-NaN) value of that day, NaN when there is none; the second replaces, per
  column, a NaN by the most recent value above it.
\<close>

definition last_valid_row :: "nat \<Rightarrow> float64 list list \<Rightarrow> float64 list" where
  "last_valid_row n rs =
     foldl (\<lambda>acc r. map2 (\<lambda>a b. if b = NaN then a else b) acc r) (replicate n NaN) rs"

definition resample_1D_last :: "frame \<Rightarrow> frame" where
  "resample_1D_last df =
     (if rows df = [] then df
      else df\<lparr>rows :=
        map (\<lambda>d. (d, last_valid_row (length (columns df))
                        (map snd (filter (\<lambda>r. fst r = d) (rows df)))))
            [Min (set (map fst (rows df))) .. Max (set (map fst (rows df)))]\<rparr>)"

fun ffill_rows :: "float64 list \<Rightarrow> (int \<times> float64 list) list \<Rightarrow> (int \<times> float64 list) list" where
  "ffill_rows prev [] = []"
| "ffill_rows prev (r # rs) =
     (let filled = map2 (\<lambda>a b. if b = NaN then a else b) prev (snd r)
      in (fst r, filled) # ffill_rows filled rs)"

definition fillna_ffill :: "frame \<Rightarrow> frame" where
  "fillna_ffill df = df\<lparr>rows := ffill_rows (replicate (length (columns df)) NaN) (rows df)\<rparr>"

definition resample_data :: "frame \<Rightarrow> frame" where
  "resample_data df_prices = fillna_ffill (resample_1D_last df_prices)"

section \<open>The price loader\<close>

text \<open>
  The price-history provider (\<open>yf.Ticker(ticker).history(start, end)[["Open"]]\<close>) is a
  parameter: it gives, for a ticker and a range, the dated opening prices. The minimum of
  an empty index is \<open>NaT\<close>, and a comparison with \<open>NaT\<close> is false.
\<close>

type_synonym provider = "string \<Rightarrow> int \<Rightarrow> int \<Rightarrow> (int \<times> float64) list"

fun load_columns ::
  "provider \<Rightarrow> string list \<Rightarrow> int \<Rightarrow> int \<Rightarrow> error + (string \<times> (int \<times> float64) list) list" where
  "load_columns history [] start_date end_date = Inr []"
| "load_columns history (ticker # ts) start_date end_date =
     (let df_ticker = history ticker start_date end_date in
      if df_ticker \<noteq> [] \<and> start_date < Min (set (map fst df_ticker))
      then Inl (DataAvailabilityError ticker (Min (set (map fst df_ticker))))
      else bind_err (load_columns history ts start_date end_date) (\<lambda>data.
             Inr ((ticker @ ''_price'', df_ticker) # data)))"

text \<open>
  Modelled from the spec: \<open>pd.concat(data, axis=1)\<close> and \<open>DataFrame.round(2)\<close> are pandas
  functions and not part of the source. The first aligns the series on the union of their
  dates, a date a series lacks giving NaN; the second rounds every finite cell to two
  decimals, halves to the even neighbour.
\<close>

definition concat_columns :: "(string \<times> (int \<times> float64) list) list \<Rightarrow> error + frame" where
  "concat_columns data =
     (if data = [] then Inl NoObjectsError
      else Inr \<lparr>columns = map fst data,
                rows = map (\<lambda>d. (d, map (\<lambda>c. case map_of (snd c) d of None \<Rightarrow> NaN | Some v \<Rightarrow> v) data))
                         (sort (remdups (concat (map (\<lambda>c. map fst (snd c)) data))))\<rparr>)"

definition round_half_even :: "rat \<Rightarrow> int" where
  "round_half_even x =
     (let f = \<lfloor>x\<rfloor>; r = x - of_int f
      in if r < 1 / 2 then f else if 1 / 2 < r then f + 1 else if even f then f else f + 1)"

definition round2 :: "float64 \<Rightarrow> float64" where
  "round2 x = (case x of Fin a \<Rightarrow> Fin (of_int (round_half_even (a * 100)) / 100) | _ \<Rightarrow> x)"

definition load_data ::
  "provider \<Rightarrow> (string \<times> rat) list \<Rightarrow> int \<Rightarrow> int \<Rightarrow> error + frame" where
  "load_data history tickers start_date end_date =
     bind_err (load_columns history (map fst tickers) start_date end_date) (\<lambda>data.
     bind_err (concat_columns data) (\<lambda>df.
       Inr (df\<lparr>rows := map (\<lambda>r. (fst r, map round2 (snd r))) (rows df)\<rparr>)))"

definition simulate_portfolio ::
  "provider \<Rightarrow> (string \<times> rat) list \<Rightarrow> int \<Rightarrow> int \<Rightarrow> rat \<Rightarrow> rat \<Rightarrow> error + ledger list" where
  "simulate_portfolio history tickers start_date end_date initial_amount monthly_addition =
     bind_err (load_data history tickers start_date end_date) (\<lambda>df_prices.
       get_portfolio tickers (resample_data df_prices) initial_amount monthly_addition)"

section \<open>Preconditions of the price table\<close>

text \<open>
  Every cell of the table is a positive finite price, and the table has a price column for
  every ticker. The working record has a price and a share count for every ticker.
\<close>

fun positive :: "float64 \<Rightarrow> bool" where
  "positive (Fin p) = (0 < p)"
| "positive _ = False"

definition positive_prices :: "frame \<Rightarrow> bool" where
  "positive_prices df = (\<forall>r \<in> set (rows df). \<forall>x \<in> set (snd r). positive x)"

definition covers :: "frame \<Rightarrow> (string \<times> rat) list \<Rightarrow> bool" where
  "covers df tickers = (\<forall>t \<in> set tickers. fst t @ ''_price'' \<in> set (columns df))"

definition has_keys :: "(string \<times> rat) list \<Rightarrow> ledger \<Rightarrow> bool" where
  "has_keys ts rec =
     (fst ` set ts \<subseteq> fst ` set (price rec) \<and> fst ` set ts \<subseteq> fst ` set (shares rec))"

section \<open>Inputs of the scenarios\<close>

text \<open>
  One ticker \<open>X\<close> at the flat price 10 on every day from 2021-01-01 (day 18628) to
  2021-03-31 (day 18717); 2021-02-01 is day 18659 and 2021-03-01 is day 18687. The ledger
  of the scenario is the result of the simulator on it with initial amount 1000 and monthly
  addition 200.
\<close>

definition scenario_prices :: frame where
  "scenario_prices =
     \<lparr>columns = [''X_price''], rows = map (\<lambda>d. (d, [Fin 10])) [18628..18717]\<rparr>"

definition scenario_records :: "ledger list" where
  "scenario_records =
     (case get_portfolio [(''X'', 1)] scenario_prices 1000 200 of Inl e \<Rightarrow> [] | Inr rs \<Rightarrow> rs)"

text \<open>
  Two tickers on four days, 2021-01-30 (day 18657) to 2021-02-02: the second day of the
  table is not a first of the month, the third is. With weights 1/2 and 1/2, initial amount
  100 and monthly addition 40 the simulator returns \<open>two_ticker_records\<close>, read from the
  addresses 1 to 4 of the final store, whose address 0 holds the working record.
\<close>

definition two_ticker_prices :: frame where
  "two_ticker_prices =
     \<lparr>columns = [''A_price'', ''B_price''],
      rows = [(18657, [Fin 1, Fin 4]), (18658, [Fin 2, Fin 4]),
              (18659, [Fin 2, Fin 5]), (18660, [Fin 1, Fin 5])]\<rparr>"

definition two_ticker_records :: "ledger list" where
  "two_ticker_records =
     [\<lparr>date = 18657, price = [(''A'', Fin 1), (''B'', Fin 4)],
        shares = [(''A'', Fin 50), (''B'', Fin (25 / 2))],
        amount_invested = 100, portfolio_value = Fin 100\<rparr>,
      \<lparr>date = 18658, price = [(''A'', Fin 2), (''B'', Fin 4)],
        shares = [(''A'', Fin 50), (''B'', Fin (25 / 2))],
        amount_invested = 100, portfolio_value = Fin 150\<rparr>,
      \<lparr>date = 18659, price = [(''A'', Fin 2), (''B'', Fin 5)],
        shares = [(''A'', Fin 60), (''B'', Fin (33 / 2))],
        amount_invested = 140, portfolio_value = Fin (405 / 2)\<rparr>,
      \<lparr>date = 18660, price = [(''A'', Fin 1), (''B'', Fin 5)],
        shares = [(''A'', Fin 60), (''B'', Fin (33 / 2))],
        amount_invested = 140, portfolio_value = Fin (285 / 2)\<rparr>]"

definition two_ticker_store :: "ledger list \<times> nat list" where
  "two_ticker_store = (two_ticker_records ! 3 # two_ticker_records, [1, 2, 3, 4])"

text \<open>
  A table of two days that starts on 2021-02-01, and the ledger of one ticker at weight 1
  on it, with initial amount 1000 and monthly addition 200.
\<close>

definition first_day_prices :: frame where
  "first_day_prices = \<lparr>columns = [''X_price''], rows = [(18659, [Fin 10]), (18660, [Fin 10])]\<rparr>"

definition first_day_records :: "ledger list" where
  "first_day_records =
     [\<lparr>date = 18659, price = [(''X'', Fin 10)], shares = [(''X'', Fin 120)],
        amount_invested = 1200, portfolio_value = Fin 1200\<rparr>,
      \<lparr>date = 18660, price = [(''X'', Fin 10)], shares = [(''X'', Fin 120)],
        amount_invested = 1200, portfolio_value = Fin 1200\<rparr>]"

text \<open>
  A table with a Friday (2021-01-08, day 18635), a Saturday on which only the second ticker
  was observed, no Sunday, and the Monday.
\<close>

definition weekend_prices :: frame where
  "weekend_prices =
     \<lparr>columns = [''A_price'', ''B_price''],
      rows = [(18635, [Fin 10, Fin 7]), (18636, [NaN, Fin 9]), (18638, [Fin 11, Fin 8])]\<rparr>"

text \<open>
  A provider for the loader: ticker \<open>A\<close> has prices from day 3 on, every other ticker
  from day 4 on.
\<close>

definition sample_history :: provider where
  "sample_history ticker start_date end_date =
     (if ticker = ''A'' then [(3, Fin 1), (4, Fin 2), (5, Fin 2)]
      else [(4, Fin 5), (6, Fin 6)])"

section \<open>Errors of the simulator\<close>

lemma bind_err_simps [simp]: "bind_err (Inl e) f = Inl e" "bind_err (Inr v) f = f v"
  by (simp_all add: bind_err_def)

lemma bind_err_Inl: "bind_err m f = Inl e \<Longrightarrow> m = Inl e \<or> (\<exists>v. m = Inr v \<and> f v = Inl e)"
  by (cases m) simp_all

lemma bind_err_Inr: "bind_err m f = Inr y \<Longrightarrow> \<exists>v. m = Inr v \<and> f v = Inr y"
  by (cases m) simp_all

lemma getitem_err: "getitem d k = Inl e \<Longrightarrow> e = KeyError"
  by (auto simp: getitem_def split: option.splits)

lemma iloc0_err: "iloc0 df c = Inl e \<Longrightarrow> e = IndexError \<or> e = KeyError"
  by (auto simp: iloc0_def split: list.splits dest: getitem_err)

lemma loc_err: "loc df d c = Inl e \<Longrightarrow> e = KeyError"
  by (auto simp: loc_def split: option.splits dest: getitem_err)

lemma first_prices_err: "first_prices ts df = Inl e \<Longrightarrow> e = IndexError \<or> e = KeyError"
  by (induction ts df rule: first_prices.induct) (auto dest!: bind_err_Inl dest: iloc0_err)

lemma first_shares_err: "first_shares ts df a = Inl e \<Longrightarrow> e = IndexError \<or> e = KeyError"
  by (induction ts df a rule: first_shares.induct) (auto dest!: bind_err_Inl dest: iloc0_err)

lemma first_record_err: "first_record ts df a = Inl e \<Longrightarrow> e = IndexError \<or> e = KeyError"
  by (auto simp: first_record_def split: list.splits dest!: bind_err_Inl
      dest: first_prices_err first_shares_err)

lemma update_prices_err: "update_prices ts df d r = Inl e \<Longrightarrow> e = KeyError"
  by (induction ts df d r rule: update_prices.induct) (auto dest!: bind_err_Inl dest: loc_err)

lemma buy_more_shares_err: "buy_more_shares ts m r = Inl e \<Longrightarrow> e = KeyError"
  by (induction ts m r rule: buy_more_shares.induct) (auto dest!: bind_err_Inl dest: getitem_err)

lemma revalue_err: "revalue ts r = Inl e \<Longrightarrow> e = KeyError"
  by (induction ts r rule: revalue.induct) (auto dest!: bind_err_Inl dest: getitem_err)

lemma day_step_err: "day_step ts df m d r = Inl e \<Longrightarrow> e = KeyError"
  by (auto simp: day_step_def split: if_splits dest!: bind_err_Inl
      dest: update_prices_err buy_more_shares_err revalue_err)

lemma loop_days_err: "loop_days ts df m ds r rs = Inl e \<Longrightarrow> e = KeyError"
  by (induction ts df m ds r rs rule: loop_days.induct) (auto dest!: bind_err_Inl dest: day_step_err)



section \<open>The loop over the days\<close>

lemma loop_days_append:
  "loop_days ts df m ds r acc = Inr rs \<Longrightarrow> \<exists>new. rs = acc @ new \<and> length new = length ds"
proof (induction ds arbitrary: r acc)
  case Nil
  then show ?case by simp
next
  case (Cons d ds)
  from Cons.prems obtain r' where
    l: "loop_days ts df m ds r' (acc @ [r']) = Inr rs"
    by (auto dest!: bind_err_Inr)
  from Cons.IH [OF l] obtain new where "rs = (acc @ [r']) @ new" "length new = length ds"
    by blast
  then show ?case by (intro exI [of _ "r' # new"]) simp
qed

lemma loop_days_nth:
  "loop_days ts df m ds r acc = Inr rs \<Longrightarrow> i < length ds \<Longrightarrow>
   day_step ts df m (ds ! i) (if i = 0 then r else rs ! (length acc + i - 1))
     = Inr (rs ! (length acc + i))"
proof (induction ds arbitrary: r acc i)
  case Nil
  then show ?case by simp
next
  case (Cons d ds)
  from Cons.prems(1) obtain r' where
    s: "day_step ts df m d r = Inr r'" and l: "loop_days ts df m ds r' (acc @ [r']) = Inr rs"
    by (auto dest!: bind_err_Inr)
  from loop_days_append [OF l] obtain new where rs: "rs = (acc @ [r']) @ new" by blast
  then have at: "rs ! length acc = r'" by (simp add: nth_append)
  show ?case
  proof (cases i)
    case 0
    with s at show ?thesis by simp
  next
    case (Suc j)
    with Cons.prems(2) have "j < length ds" by simp
    from Cons.IH [OF l this] Suc at show ?thesis by (cases j) simp_all
  qed
qed

lemma get_portfolio_Inr:
  assumes "get_portfolio ts df ia ma = Inr rs"
  shows "sum_list (map snd ts) = 1"
    and "\<exists>rec. first_record ts df ia = Inr rec
           \<and> loop_days ts df ma (map fst (rows df)) rec [] = Inr rs"
  using assms by (auto simp: get_portfolio_def split: if_splits dest!: bind_err_Inr)

lemma get_portfolio_length:
  "get_portfolio ts df ia ma = Inr rs \<Longrightarrow> length rs = length (rows df)"
  by (auto dest!: get_portfolio_Inr(2) loop_days_append)

lemma get_portfolio_succ:
  assumes "get_portfolio ts df ia ma = Inr rs" and "Suc i < length rs"
  shows "day_step ts df ma (fst (rows df ! Suc i)) (rs ! i) = Inr (rs ! Suc i)"
proof -
  from assms(1) obtain rec where
    l: "loop_days ts df ma (map fst (rows df)) rec [] = Inr rs"
    by (auto dest: get_portfolio_Inr(2))
  from assms have "Suc i < length (map fst (rows df))"
    by (simp add: get_portfolio_length)
  from loop_days_nth [OF l this] this show ?thesis by simp
qed

lemma get_portfolio_first:
  assumes "get_portfolio ts df ia ma = Inr rs"
  shows "\<exists>r rest rec. rows df = r # rest \<and> first_record ts df ia = Inr rec
           \<and> rs \<noteq> [] \<and> day_step ts df ma (fst r) rec = Inr (hd rs)"
proof -
  from assms obtain rec where f: "first_record ts df ia = Inr rec" and
    l: "loop_days ts df ma (map fst (rows df)) rec [] = Inr rs"
    by (auto dest: get_portfolio_Inr(2))
  from f obtain r rest where r: "rows df = r # rest"
    by (auto simp: first_record_def split: list.splits)
  from loop_days_append [OF l] r have ne: "rs \<noteq> []" by auto
  from loop_days_nth [OF l, of 0] r have "day_step ts df ma (fst r) rec = Inr (rs ! 0)" by simp
  with ne r f show ?thesis by (simp add: hd_conv_nth)
qed

lemma update_prices_frame:
  "update_prices ts df d r = Inr r' \<Longrightarrow>
     date r' = date r \<and> shares r' = shares r \<and> amount_invested r' = amount_invested r
     \<and> portfolio_value r' = portfolio_value r"
  by (induction ts df d r rule: update_prices.induct) (auto dest!: bind_err_Inr)

lemma buy_more_shares_frame:
  "buy_more_shares ts m r = Inr r' \<Longrightarrow>
     date r' = date r \<and> price r' = price r \<and> amount_invested r' = amount_invested r
     \<and> portfolio_value r' = portfolio_value r"
  by (induction ts m r rule: buy_more_shares.induct) (auto dest!: bind_err_Inr)

lemma revalue_frame:
  "revalue ts r = Inr r' \<Longrightarrow>
     date r' = date r \<and> price r' = price r \<and> shares r' = shares r
     \<and> amount_invested r' = amount_invested r"
  by (induction ts r rule: revalue.induct) (auto dest!: bind_err_Inr)

lemma day_step_date: "day_step ts df m d r = Inr r' \<Longrightarrow> date r' = d"
  by (auto simp: day_step_def split: if_splits
      dest!: bind_err_Inr update_prices_frame buy_more_shares_frame revalue_frame)

lemma day_step_amount_invested:
  "day_step ts df m d r = Inr r' \<Longrightarrow>
     amount_invested r' = (if day_of_month d = 1 then amount_invested r + m else amount_invested r)"
  by (auto simp: day_step_def split: if_splits
      dest!: bind_err_Inr update_prices_frame buy_more_shares_frame revalue_frame)


lemma two_ticker_run:
  "get_portfolio [(''A'', 1 / 2), (''B'', 1 / 2)] two_ticker_prices 100 40 = Inr two_ticker_records"
  by code_simp

lemma two_ticker_days:
  "day_of_month 18657 = 30" "day_of_month 18658 = 31" "day_of_month 18659 = 1"
  "day_of_month 18660 = 2"
  by code_simp+


section \<open>Prices and shares of one day\<close>

lemma positiveD: "positive x \<Longrightarrow> \<exists>p. x = Fin p \<and> 0 < p"
  by (cases x) simp_all

lemma getitem_Inr: "getitem d k = Inr v \<longleftrightarrow> map_of d k = Some v"
  by (simp add: getitem_def split: option.splits)

lemma getitem_zip_mem: "getitem (zip cs r) c = Inr x \<Longrightarrow> x \<in> set r"
  by (auto simp: getitem_Inr dest!: map_of_SomeD dest: set_zip_rightD)

lemma loc_positive: "positive_prices df \<Longrightarrow> loc df d c = Inr x \<Longrightarrow> positive x"
  by (fastforce simp: loc_def positive_prices_def split: option.splits
      dest!: map_of_SomeD getitem_zip_mem)

lemma iloc0_positive: "positive_prices df \<Longrightarrow> iloc0 df c = Inr x \<Longrightarrow> positive x"
  by (fastforce simp: iloc0_def positive_prices_def split: list.splits dest!: getitem_zip_mem)

lemma loc_first: "rows df = r # rest \<Longrightarrow> loc df (fst r) c = iloc0 df c"
  by (cases r) (simp add: loc_def iloc0_def)

lemma update_prices_other:
  "update_prices ts df d r = Inr r' \<Longrightarrow> t \<notin> fst ` set ts \<Longrightarrow>
     map_of (price r') t = map_of (price r) t"
  by (induction ts df d r rule: update_prices.induct)
     (auto dest!: bind_err_Inr simp: update_conv')

lemma update_prices_price:
  "update_prices ts df d r = Inr r' \<Longrightarrow> t \<in> fst ` set ts \<Longrightarrow>
     \<exists>x. loc df d (t @ ''_price'') = Inr x \<and> map_of (price r') t = Some x"
proof (induction ts df d r rule: update_prices.induct)
  case (1 df day rec)
  then show ?case by simp
next
  case (2 t0 w ts df day rec)
  from "2.prems"(1) obtain p where
    p: "loc df day (t0 @ ''_price'') = Inr p" and
    u: "update_prices ts df day (rec\<lparr>price := AList.update t0 p (price rec)\<rparr>) = Inr r'"
    by (auto dest!: bind_err_Inr)
  show ?case
  proof (cases "t \<in> fst ` set ts")
    case True
    from "2.IH" [OF u True] show ?thesis .
  next
    case False
    with "2.prems"(2) have "t = t0" by auto
    with update_prices_other [OF u False] p show ?thesis by (simp add: update_conv')
  qed
qed

lemma buy_more_shares_other:
  "buy_more_shares ts m r = Inr r' \<Longrightarrow> t \<notin> fst ` set ts \<Longrightarrow>
     map_of (shares r') t = map_of (shares r) t"
  by (induction ts m r rule: buy_more_shares.induct)
     (auto dest!: bind_err_Inr simp: update_conv')

lemma get_number_of_shares_Fin:
  "0 < p \<Longrightarrow> get_number_of_shares a (Fin p) w = Fin (a / p * w)"
  by (simp add: get_number_of_shares_def)

lemma buy_more_shares_mono:
  assumes "buy_more_shares ts m r = Inr r'"
    and "0 \<le> m" and "\<forall>w \<in> snd ` set ts. 0 \<le> w"
    and "\<forall>t \<in> fst ` set ts. \<exists>p. map_of (price r) t = Some (Fin p) \<and> 0 < p"
    and "map_of (shares r) k = Some (Fin a)"
  shows "\<exists>b. map_of (shares r') k = Some (Fin b) \<and> a \<le> b"
  using assms
proof (induction ts m r arbitrary: a rule: buy_more_shares.induct)
  case (1 m r)
  then show ?case by simp
next
  case (2 t0 w ts m r)
  from "2.prems"(1) obtain s p0 where
    s: "getitem (shares r) t0 = Inr s" and p0: "getitem (price r) t0 = Inr p0" and
    b: "buy_more_shares ts m
          (r\<lparr>shares := AList.update t0 (fadd s (get_number_of_shares m p0 w)) (shares r)\<rparr>) = Inr r'"
    by (auto dest!: bind_err_Inr)
  let ?r1 = "r\<lparr>shares := AList.update t0 (fadd s (get_number_of_shares m p0 w)) (shares r)\<rparr>"
  from "2.prems"(4) p0 obtain p where p: "p0 = Fin p" "0 < p"
    by (auto simp: getitem_Inr)
  from "2.prems"(2,3) p have nn: "0 \<le> m / p * w" by simp
  have "\<exists>a1. map_of (shares ?r1) k = Some (Fin a1) \<and> a \<le> a1"
  proof (cases "k = t0")
    case True
    with s "2.prems"(5) have "s = Fin a" by (simp add: getitem_Inr)
    with True p nn show ?thesis
      by (simp add: update_conv' get_number_of_shares_Fin)
  next
    case False
    with "2.prems"(5) show ?thesis by (simp add: update_conv')
  qed
  then obtain a1 where a1: "map_of (shares ?r1) k = Some (Fin a1)" "a \<le> a1" by blast
  have "\<exists>b. map_of (shares r') k = Some (Fin b) \<and> a1 \<le> b"
    using "2.prems"(2,3,4) a1(1) by (intro "2.IH" [OF b]) simp_all
  with a1(2) show ?case by force
qed

lemma buy_more_shares_exact:
  assumes "buy_more_shares ts m r = Inr r'"
    and "distinct (map fst ts)" and "(t, w) \<in> set ts"
    and "map_of (shares r) t = Some s" and "map_of (price r) t = Some p"
  shows "map_of (shares r') t = Some (fadd s (get_number_of_shares m p w))"
  using assms
proof (induction ts m r rule: buy_more_shares.induct)
  case (1 m r)
  then show ?case by simp
next
  case (2 t0 w0 ts m r)
  from "2.prems"(1) obtain s0 p0 where
    s0: "getitem (shares r) t0 = Inr s0" and p0: "getitem (price r) t0 = Inr p0" and
    b: "buy_more_shares ts m
          (r\<lparr>shares := AList.update t0 (fadd s0 (get_number_of_shares m p0 w0)) (shares r)\<rparr>) = Inr r'"
    by (auto dest!: bind_err_Inr)
  show ?case
  proof (cases "t = t0")
    case True
    with "2.prems"(2,3) have w: "w = w0" and notin: "t \<notin> fst ` set ts"
      by (auto simp: image_iff)
    from True s0 p0 "2.prems"(4,5) have "s0 = s" "p0 = p" by (simp_all add: getitem_Inr)
    with buy_more_shares_other [OF b notin] True w show ?thesis
      by (simp add: update_conv')
  next
    case False
    with "2.prems" show ?thesis
      by (intro "2.IH" [OF b]) (auto simp: update_conv')
  qed
qed

lemma first_shares_lookup:
  "first_shares ts df ia = Inr ss \<Longrightarrow> t \<in> fst ` set ts \<Longrightarrow>
     \<exists>p w. iloc0 df (t @ ''_price'') = Inr p \<and> map_of ss t = Some (get_number_of_shares ia p w)"
proof (induction ts df ia arbitrary: ss rule: first_shares.induct)
  case (1 df ia)
  then show ?case by simp
next
  case (2 t0 w0 ts df ia)
  from "2.prems"(1) obtain p ss' where
    p: "iloc0 df (t0 @ ''_price'') = Inr p" and f: "first_shares ts df ia = Inr ss'" and
    ss: "ss = (t0, get_number_of_shares ia p w0) # ss'"
    by (auto dest!: bind_err_Inr)
  show ?case
  proof (cases "t = t0")
    case True
    with p ss show ?thesis by auto
  next
    case False
    with "2.prems"(2) have "t \<in> fst ` set ts" by auto
    from "2.IH" [OF f this] False ss show ?thesis by simp
  qed
qed

lemma first_shares_exact:
  "first_shares ts df ia = Inr ss \<Longrightarrow> distinct (map fst ts) \<Longrightarrow> (t, w) \<in> set ts \<Longrightarrow>
     \<exists>p. iloc0 df (t @ ''_price'') = Inr p \<and> map_of ss t = Some (get_number_of_shares ia p w)"
proof (induction ts df ia arbitrary: ss rule: first_shares.induct)
  case (1 df ia)
  then show ?case by simp
next
  case (2 t0 w0 ts df ia)
  from "2.prems"(1) obtain p ss' where
    p: "iloc0 df (t0 @ ''_price'') = Inr p" and f: "first_shares ts df ia = Inr ss'" and
    ss: "ss = (t0, get_number_of_shares ia p w0) # ss'"
    by (auto dest!: bind_err_Inr)
  show ?case
  proof (cases "t = t0")
    case True
    with "2.prems"(2,3) have "w = w0" by (auto simp: image_iff)
    with True p ss show ?thesis by auto
  next
    case False
    with "2.prems"(2,3) have "distinct (map fst ts)" "(t, w) \<in> set ts" by auto
    from "2.IH" [OF f this] False ss show ?thesis by simp
  qed
qed

lemma first_record_fields:
  "first_record ts df ia = Inr rec \<Longrightarrow>
     \<exists>ps ss. first_prices ts df = Inr ps \<and> first_shares ts df ia = Inr ss
       \<and> price rec = ps \<and> shares rec = ss \<and> amount_invested rec = ia"
  by (auto simp: first_record_def split: list.splits dest!: bind_err_Inr)

text \<open>Every ticker holds a finite number of shares.\<close>

lemma first_record_finite_shares:
  assumes "first_record ts df ia = Inr rec" and "positive_prices df" and "t \<in> fst ` set ts"
  shows "\<exists>a. map_of (shares rec) t = Some (Fin a)"
proof -
  from first_record_fields [OF assms(1)] obtain ss where
    ss: "first_shares ts df ia = Inr ss" "shares rec = ss" by blast
  from first_shares_lookup [OF ss(1) assms(3)] obtain p w where
    p: "iloc0 df (t @ ''_price'') = Inr p" "map_of ss t = Some (get_number_of_shares ia p w)"
    by blast
  from iloc0_positive [OF assms(2) p(1)] obtain q where "p = Fin q" "0 < q"
    by (auto dest: positiveD)
  with p(2) ss(2) show ?thesis by (simp add: get_number_of_shares_Fin)
qed

lemma day_step_shares_mono:
  assumes step: "day_step ts df m d r = Inr r'"
    and pos: "positive_prices df" and m: "0 \<le> m" and w: "\<forall>w \<in> snd ` set ts. 0 \<le> w"
    and a: "map_of (shares r) k = Some (Fin a)"
  shows "\<exists>b. map_of (shares r') k = Some (Fin b) \<and> a \<le> b"
proof -
  from step obtain r1 r3 where
    u: "update_prices ts df d (r\<lparr>date := d\<rparr>) = Inr r1" and
    b: "(if day_of_month d = 1
         then bind_err (buy_more_shares ts m r1) (\<lambda>rec2.
                Inr (rec2\<lparr>amount_invested := amount_invested rec2 + m\<rparr>))
         else Inr r1) = Inr r3" and
    v: "revalue ts (r3\<lparr>portfolio_value := Fin 0\<rparr>) = Inr r'"
    unfolding day_step_def by (auto dest!: bind_err_Inr)
  from update_prices_frame [OF u] a have a1: "map_of (shares r1) k = Some (Fin a)" by simp
  have pr: "\<forall>t \<in> fst ` set ts. \<exists>p. map_of (price r1) t = Some (Fin p) \<and> 0 < p"
  proof
    fix t assume "t \<in> fst ` set ts"
    from update_prices_price [OF u this] obtain x where
      x: "loc df d (t @ ''_price'') = Inr x" "map_of (price r1) t = Some x" by blast
    from loc_positive [OF pos x(1)] x(2)
    show "\<exists>p. map_of (price r1) t = Some (Fin p) \<and> 0 < p" by (auto dest: positiveD)
  qed
  have "\<exists>b. map_of (shares r3) k = Some (Fin b) \<and> a \<le> b"
  proof (cases "day_of_month d = 1")
    case True
    with b obtain r2 where
      r2: "buy_more_shares ts m r1 = Inr r2" "r3 = r2\<lparr>amount_invested := amount_invested r2 + m\<rparr>"
      by (auto dest!: bind_err_Inr)
    from buy_more_shares_mono [OF r2(1) m w pr a1] r2(2) show ?thesis by simp
  next
    case False
    with b a1 show ?thesis by auto
  qed
  with revalue_frame [OF v] show ?thesis by simp
qed

lemma get_portfolio_finite_shares:
  assumes run: "get_portfolio ts df ia ma = Inr rs"
    and pos: "positive_prices df" and m: "0 \<le> ma" and w: "\<forall>w \<in> snd ` set ts. 0 \<le> w"
    and t: "t \<in> fst ` set ts"
  shows "i < length rs \<Longrightarrow> \<exists>a. map_of (shares (rs ! i)) t = Some (Fin a)"
proof (induction i)
  case 0
  from get_portfolio_first [OF run] obtain r rec where
    f: "first_record ts df ia = Inr rec" and ne: "rs \<noteq> []" and
    s: "day_step ts df ma (fst r) rec = Inr (hd rs)" by auto
  from first_record_finite_shares [OF f pos t] obtain a where
    "map_of (shares rec) t = Some (Fin a)" by blast
  from day_step_shares_mono [OF s pos m w this] ne show ?case
    by (auto simp: hd_conv_nth)
next
  case (Suc i)
  then obtain a where a: "map_of (shares (rs ! i)) t = Some (Fin a)" by auto
  from get_portfolio_succ [OF run Suc.prems]
  have s: "day_step ts df ma (fst (rows df ! Suc i)) (rs ! i) = Inr (rs ! Suc i)" .
  from day_step_shares_mono [OF s pos m w a] show ?case by blast
qed


lemma two_ticker_positive: "positive_prices two_ticker_prices"
  by (simp add: positive_prices_def two_ticker_prices_def)

lemma two_ticker_weights: "\<forall>w \<in> snd ` set [(''A'', 1 / 2 :: rat), (''B'', 1 / 2)]. 0 \<le> w"
  by simp


section \<open>The simulator returns a ledger\<close>

lemma getitem_zip_Inr:
  "length r = length cs \<Longrightarrow> c \<in> set cs \<Longrightarrow> \<exists>x. getitem (zip cs r) c = Inr x"
proof -
  assume "length r = length cs" "c \<in> set cs"
  then have "map_of (zip cs r) c \<noteq> None" by (simp add: map_of_zip_is_None)
  then show ?thesis by (auto simp: getitem_def)
qed

lemma iloc0_Inr:
  "wf_frame df \<Longrightarrow> rows df \<noteq> [] \<Longrightarrow> c \<in> set (columns df) \<Longrightarrow> \<exists>x. iloc0 df c = Inr x"
  by (cases "rows df") (auto simp: iloc0_def wf_frame_def intro: getitem_zip_Inr)

lemma loc_Inr:
  assumes "wf_frame df" and "d \<in> fst ` set (rows df)" and "c \<in> set (columns df)"
  shows "\<exists>x. loc df d c = Inr x"
proof -
  from assms(2) obtain r where r: "map_of (rows df) d = Some r"
    by (cases "map_of (rows df) d") (auto simp: map_of_eq_None_iff)
  then have "(d, r) \<in> set (rows df)" by (rule map_of_SomeD)
  with assms(1) have "length r = length (columns df)" by (auto simp: wf_frame_def)
  from getitem_zip_Inr [OF this assms(3)] r show ?thesis by (simp add: loc_def)
qed

lemma first_prices_Inr:
  "wf_frame df \<Longrightarrow> rows df \<noteq> [] \<Longrightarrow> covers df ts \<Longrightarrow> \<exists>ps. first_prices ts df = Inr ps"
proof (induction ts)
  case Nil
  then show ?case by simp
next
  case (Cons x ts)
  obtain t w where x: "x = (t, w)" by (cases x)
  with Cons.prems(3) have c: "t @ ''_price'' \<in> set (columns df)" "covers df ts"
    by (simp_all add: covers_def)
  from iloc0_Inr [OF Cons.prems(1,2) c(1)] obtain p where
    p: "iloc0 df (t @ ''_price'') = Inr p" by blast
  from Cons.IH [OF Cons.prems(1,2) c(2)] obtain rest where "first_prices ts df = Inr rest" by blast
  with p x show ?case by simp
qed

lemma first_shares_Inr:
  "wf_frame df \<Longrightarrow> rows df \<noteq> [] \<Longrightarrow> covers df ts \<Longrightarrow> \<exists>ss. first_shares ts df ia = Inr ss"
proof (induction ts)
  case Nil
  then show ?case by simp
next
  case (Cons x ts)
  obtain t w where x: "x = (t, w)" by (cases x)
  with Cons.prems(3) have c: "t @ ''_price'' \<in> set (columns df)" "covers df ts"
    by (simp_all add: covers_def)
  from iloc0_Inr [OF Cons.prems(1,2) c(1)] obtain p where
    p: "iloc0 df (t @ ''_price'') = Inr p" by blast
  from Cons.IH [OF Cons.prems(1,2) c(2)] obtain rest where "first_shares ts df ia = Inr rest" by blast
  with p x show ?case by simp
qed

lemma first_prices_keys: "first_prices ts df = Inr ps \<Longrightarrow> map fst ps = map fst ts"
  by (induction ts df arbitrary: ps rule: first_prices.induct) (auto dest!: bind_err_Inr)

lemma first_shares_keys: "first_shares ts df ia = Inr ss \<Longrightarrow> map fst ss = map fst ts"
  by (induction ts df ia arbitrary: ss rule: first_shares.induct) (auto dest!: bind_err_Inr)

lemma first_record_Inr:
  assumes "wf_frame df" and "rows df \<noteq> []" and "covers df ts"
  shows "\<exists>rec. first_record ts df ia = Inr rec \<and> has_keys ts rec"
proof -
  from first_prices_Inr [OF assms] obtain ps where ps: "first_prices ts df = Inr ps" by blast
  from first_shares_Inr [OF assms] obtain ss where ss: "first_shares ts df ia = Inr ss" by blast
  from first_prices_keys [OF ps] have "set (map fst ps) = set (map fst ts)" by simp
  then have kp: "fst ` set ps = fst ` set ts" by simp
  from first_shares_keys [OF ss] have "set (map fst ss) = set (map fst ts)" by simp
  then have ks: "fst ` set ss = fst ` set ts" by simp
  note kp ks
  obtain r rest where "rows df = r # rest" using assms(2) by (cases "rows df") auto
  with ps ss have "first_record ts df ia =
      Inr \<lparr>date = fst r, price = ps, shares = ss, amount_invested = ia,
           portfolio_value = Fin ia\<rparr>"
    by (simp add: first_record_def)
  with kp ks show ?thesis by (simp add: has_keys_def)
qed

lemma getitem_key: "k \<in> fst ` set d \<Longrightarrow> \<exists>v. getitem d k = Inr v"
  by (cases "map_of d k") (auto simp: getitem_def map_of_eq_None_iff)

lemma keys_update: "fst ` set (AList.update k v al) = insert k (fst ` set al)"
proof -
  have "fst ` set (AList.update k v al) = dom (map_of (AList.update k v al))"
    by (simp only: dom_map_of_conv_image_fst)
  also have "\<dots> = insert k (dom (map_of al))"
    by (simp add: update_conv')
  also have "\<dots> = insert k (fst ` set al)"
    by (simp only: dom_map_of_conv_image_fst)
  finally show ?thesis .
qed

lemma update_prices_Inr:
  assumes "wf_frame df" and "d \<in> fst ` set (rows df)"
  shows "covers df ts \<Longrightarrow> \<exists>r'. update_prices ts df d r = Inr r'"
proof (induction ts arbitrary: r)
  case Nil
  then show ?case by simp
next
  case (Cons x ts)
  obtain t w where x: "x = (t, w)" by (cases x)
  with Cons.prems have c: "t @ ''_price'' \<in> set (columns df)" "covers df ts"
    by (simp_all add: covers_def)
  from loc_Inr [OF assms c(1)] obtain p where "loc df d (t @ ''_price'') = Inr p" by blast
  with Cons.IH [OF c(2)] x show ?case by simp
qed

lemma update_prices_keys:
  "update_prices ts df d r = Inr r' \<Longrightarrow> fst ` set (price r) \<subseteq> fst ` set (price r')"
proof (induction ts arbitrary: r)
  case Nil
  then show ?case by simp
next
  case (Cons x ts)
  obtain t w where x: "x = (t, w)" by (cases x)
  with Cons.prems obtain p where
    u: "update_prices ts df d (r\<lparr>price := AList.update t p (price r)\<rparr>) = Inr r'"
    by (auto dest!: bind_err_Inr)
  from Cons.IH [OF u] have "insert t (fst ` set (price r)) \<subseteq> fst ` set (price r')"
    by (simp add: keys_update)
  then show ?case by blast
qed

lemma buy_more_shares_Inr:
  "fst ` set ts \<subseteq> fst ` set (price r) \<Longrightarrow> fst ` set ts \<subseteq> fst ` set (shares r) \<Longrightarrow>
     \<exists>r'. buy_more_shares ts m r = Inr r' \<and> fst ` set (shares r) \<subseteq> fst ` set (shares r')"
proof (induction ts arbitrary: r)
  case Nil
  then show ?case by simp
next
  case (Cons x ts)
  obtain t w where x: "x = (t, w)" by (cases x)
  with Cons.prems getitem_key [of t "shares r"] getitem_key [of t "price r"] obtain s p where
    sp: "getitem (shares r) t = Inr s" "getitem (price r) t = Inr p" by auto
  let ?r1 = "r\<lparr>shares := AList.update t (fadd s (get_number_of_shares m p w)) (shares r)\<rparr>"
  from Cons.prems have "fst ` set ts \<subseteq> fst ` set (price ?r1)" "fst ` set ts \<subseteq> fst ` set (shares ?r1)"
    by (auto simp: keys_update)
  from Cons.IH [OF this] obtain r' where
    "buy_more_shares ts m ?r1 = Inr r'" "fst ` set (shares ?r1) \<subseteq> fst ` set (shares r')"
    by blast
  with sp x show ?case by (auto simp: keys_update)
qed

lemma revalue_Inr:
  "fst ` set ts \<subseteq> fst ` set (price r) \<Longrightarrow> fst ` set ts \<subseteq> fst ` set (shares r) \<Longrightarrow>
     \<exists>r'. revalue ts r = Inr r'"
proof (induction ts arbitrary: r)
  case Nil
  then show ?case by simp
next
  case (Cons x ts)
  obtain t w where x: "x = (t, w)" by (cases x)
  with Cons.prems getitem_key [of t "shares r"] getitem_key [of t "price r"] obtain s p where
    sp: "getitem (shares r) t = Inr s" "getitem (price r) t = Inr p" by auto
  let ?r1 = "r\<lparr>portfolio_value := fadd (portfolio_value r) (fmul s p)\<rparr>"
  from Cons.prems have "fst ` set ts \<subseteq> fst ` set (price ?r1)" "fst ` set ts \<subseteq> fst ` set (shares ?r1)"
    by auto
  from Cons.IH [OF this] sp x show ?case by simp
qed

lemma day_step_Inr:
  assumes wf: "wf_frame df" and d: "d \<in> fst ` set (rows df)" and c: "covers df ts"
    and k: "has_keys ts r"
  shows "\<exists>r'. day_step ts df m d r = Inr r' \<and> has_keys ts r'"
proof -
  from update_prices_Inr [OF wf d c] obtain r1 where
    u: "update_prices ts df d (r\<lparr>date := d\<rparr>) = Inr r1" by blast
  from update_prices_keys [OF u] k
  have k1p: "fst ` set ts \<subseteq> fst ` set (price r1)"
    unfolding has_keys_def by simp blast
  from update_prices_frame [OF u] have "shares r1 = shares r" by simp
  with k have k1s: "fst ` set ts \<subseteq> fst ` set (shares r1)"
    unfolding has_keys_def by simp
  note k1 = k1p k1s
  have "\<exists>r3. (if day_of_month d = 1
         then bind_err (buy_more_shares ts m r1) (\<lambda>rec2.
                Inr (rec2\<lparr>amount_invested := amount_invested rec2 + m\<rparr>))
         else Inr r1) = Inr r3
       \<and> fst ` set ts \<subseteq> fst ` set (price r3) \<and> fst ` set ts \<subseteq> fst ` set (shares r3)"
  proof (cases "day_of_month d = 1")
    case True
    from buy_more_shares_Inr [OF k1, of m] obtain r2 where
      b: "buy_more_shares ts m r1 = Inr r2" "fst ` set (shares r1) \<subseteq> fst ` set (shares r2)"
      by blast
    with buy_more_shares_frame [OF b(1)] k1 True show ?thesis by auto
  next
    case False
    with k1 show ?thesis by simp
  qed
  then obtain r3 where
    b: "(if day_of_month d = 1
         then bind_err (buy_more_shares ts m r1) (\<lambda>rec2.
                Inr (rec2\<lparr>amount_invested := amount_invested rec2 + m\<rparr>))
         else Inr r1) = Inr r3" and
    k3: "fst ` set ts \<subseteq> fst ` set (price r3)" "fst ` set ts \<subseteq> fst ` set (shares r3)"
    by blast
  from k3 have "fst ` set ts \<subseteq> fst ` set (price (r3\<lparr>portfolio_value := Fin 0\<rparr>))"
    "fst ` set ts \<subseteq> fst ` set (shares (r3\<lparr>portfolio_value := Fin 0\<rparr>))" by simp_all
  from revalue_Inr [OF this] obtain r' where
    v: "revalue ts (r3\<lparr>portfolio_value := Fin 0\<rparr>) = Inr r'" by blast
  from revalue_frame [OF v] k3 have "has_keys ts r'" by (simp add: has_keys_def)
  moreover from u b v have "day_step ts df m d r = Inr r'"
    by (simp only: day_step_def u b v bind_err_simps)
  ultimately show ?thesis by blast
qed

lemma loop_days_Inr:
  assumes wf: "wf_frame df" and c: "covers df ts"
  shows "set ds \<subseteq> fst ` set (rows df) \<Longrightarrow> has_keys ts r \<Longrightarrow>
     \<exists>rs. loop_days ts df m ds r acc = Inr rs"
proof (induction ds arbitrary: r acc)
  case Nil
  then show ?case by simp
next
  case (Cons d ds)
  then have "d \<in> fst ` set (rows df)" by simp
  from day_step_Inr [OF wf this c Cons.prems(2)] obtain r' where
    r': "day_step ts df m d r = Inr r'" "has_keys ts r'" by blast
  from Cons.prems(1) have "set ds \<subseteq> fst ` set (rows df)" by simp
  from Cons.IH [OF this r'(2)] r'(1) show ?case by simp
qed

lemma get_portfolio_succeeds:
  assumes "sum_list (map snd ts) = 1" and "wf_frame df" and "rows df \<noteq> []" and "covers df ts"
  shows "\<exists>rs. get_portfolio ts df ia ma = Inr rs"
proof -
  from first_record_Inr [OF assms(2,3,4)] obtain rec where
    rec: "first_record ts df ia = Inr rec" "has_keys ts rec" by blast
  have "set (map fst (rows df)) \<subseteq> fst ` set (rows df)" by simp
  from loop_days_Inr [OF assms(2,4) this rec(2)] rec(1) assms(1) show ?thesis
    by (simp add: get_portfolio_def)
qed

section \<open>The first step of the loop\<close>

lemma day_step_first_of_month:
  assumes step: "day_step ts df m d r = Inr r'" and d: "day_of_month d = 1"
    and dist: "distinct (map fst ts)" and tw: "(t, w) \<in> set ts"
    and s: "map_of (shares r) t = Some s"
  shows "\<exists>p. loc df d (t @ ''_price'') = Inr p
           \<and> map_of (shares r') t = Some (fadd s (get_number_of_shares m p w))"
proof -
  from step d obtain r1 r2 where
    u: "update_prices ts df d (r\<lparr>date := d\<rparr>) = Inr r1" and
    b: "buy_more_shares ts m r1 = Inr r2" and
    v: "revalue ts (r2\<lparr>amount_invested := amount_invested r2 + m,
                       portfolio_value := Fin 0\<rparr>) = Inr r'"
    unfolding day_step_def by (auto dest!: bind_err_Inr)
  from tw have "t \<in> fst ` set ts" by force
  from update_prices_price [OF u this] obtain p where
    p: "loc df d (t @ ''_price'') = Inr p" "map_of (price r1) t = Some p" by blast
  from update_prices_frame [OF u] s have "map_of (shares r1) t = Some s" by simp
  from buy_more_shares_exact [OF b dist tw this p(2)] revalue_frame [OF v] p(1)
  show ?thesis by simp
qed

lemma day_step_other_day:
  assumes step: "day_step ts df m d r = Inr r'" and d: "day_of_month d \<noteq> 1"
  shows "shares r' = shares r"
proof -
  from step d obtain r1 where
    u: "update_prices ts df d (r\<lparr>date := d\<rparr>) = Inr r1" and
    v: "revalue ts (r1\<lparr>portfolio_value := Fin 0\<rparr>) = Inr r'"
    unfolding day_step_def by (auto dest!: bind_err_Inr)
  from update_prices_frame [OF u] revalue_frame [OF v] show ?thesis by simp
qed

lemma hd_record_first_of_month:
  assumes run: "get_portfolio tickers df initial_amount monthly_addition = Inr rs"
    and first: "day_of_month (fst (hd (rows df))) = 1"
    and pos: "positive_prices df"
    and dist: "distinct (map fst tickers)" and tw: "(t, w) \<in> set tickers"
  shows "rs \<noteq> []
       \<and> amount_invested (hd rs) = initial_amount + monthly_addition
       \<and> (\<exists>p. iloc0 df (t @ ''_price'') = Inr (Fin p)
             \<and> map_of (shares (hd rs)) t =
                 Some (Fin ((initial_amount + monthly_addition) * w / p)))"
proof -
  from get_portfolio_first [OF run] obtain r rest rec where
    r: "rows df = r # rest" and f: "first_record tickers df initial_amount = Inr rec" and
    ne: "rs \<noteq> []" and
    s: "day_step tickers df monthly_addition (fst r) rec = Inr (hd rs)" by auto
  from first r have d: "day_of_month (fst r) = 1" by simp
  from first_record_fields [OF f] obtain ss where
    ss: "first_shares tickers df initial_amount = Inr ss" "shares rec = ss"
    and ai: "amount_invested rec = initial_amount" by blast
  from first_shares_exact [OF ss(1) dist tw] ss(2) obtain p0 where
    p0: "iloc0 df (t @ ''_price'') = Inr p0"
      "map_of (shares rec) t = Some (get_number_of_shares initial_amount p0 w)" by auto
  from iloc0_positive [OF pos p0(1)] obtain p where p: "p0 = Fin p" "0 < p"
    by (auto dest: positiveD)
  from day_step_first_of_month [OF s d dist tw p0(2)] loc_first [OF r] p0(1)
  have "map_of (shares (hd rs)) t =
      Some (fadd (get_number_of_shares initial_amount p0 w)
                 (get_number_of_shares monthly_addition p0 w))" by simp
  with p have "map_of (shares (hd rs)) t =
      Some (Fin (initial_amount / p * w + monthly_addition / p * w))"
    by (simp add: get_number_of_shares_Fin)
  moreover have "initial_amount / p * w + monthly_addition / p * w
      = (initial_amount + monthly_addition) * w / p"
    by (simp add: algebra_simps add_divide_distrib)
  moreover from day_step_amount_invested [OF s] d ai
  have "amount_invested (hd rs) = initial_amount + monthly_addition" by simp
  ultimately show ?thesis using ne p0(1) p(1) by simp
qed

lemma first_day_run:
  "get_portfolio [(''X'', 1)] first_day_prices 1000 200 = Inr first_day_records"
  by code_simp

lemma first_day_positive: "positive_prices first_day_prices"
  by (simp add: positive_prices_def first_day_prices_def)

lemma first_day_iloc0: "iloc0 first_day_prices ''X_price'' = Inr (Fin 10)"
  by code_simp

lemma first_day_day: "day_of_month (fst (hd (rows first_day_prices))) = 1"
  by code_simp

lemma revalue_sum:
  assumes "\<forall>t \<in> fst ` set ts.
      map_of (shares r) t = Some (Fin (S t)) \<and> map_of (price r) t = Some (Fin (P t))"
    and "portfolio_value r = Fin v"
  shows "\<exists>r'. revalue ts r = Inr r'
           \<and> portfolio_value r' = Fin (v + sum_list (map (\<lambda>x. S (fst x) * P (fst x)) ts))"
  using assms
proof (induction ts arbitrary: r v)
  case Nil
  then show ?case by simp
next
  case (Cons x ts)
  obtain t w where x: "x = (t, w)" by (cases x)
  from Cons.prems(1) x have
    s: "getitem (shares r) t = Inr (Fin (S t))" and p: "getitem (price r) t = Inr (Fin (P t))"
    by (simp_all add: getitem_Inr)
  let ?r1 = "r\<lparr>portfolio_value := fadd (portfolio_value r) (fmul (Fin (S t)) (Fin (P t)))\<rparr>"
  have "\<exists>r'. revalue ts ?r1 = Inr r'
      \<and> portfolio_value r' = Fin (v + S t * P t + sum_list (map (\<lambda>x. S (fst x) * P (fst x)) ts))"
    using Cons.prems by (intro Cons.IH) simp_all
  with s p x show ?case by (simp add: add.assoc)
qed

lemma day_step_price:
  assumes step: "day_step ts df m d r = Inr r'" and t: "t \<in> fst ` set ts"
  shows "\<exists>x. loc df d (t @ ''_price'') = Inr x \<and> map_of (price r') t = Some x"
proof -
  from step obtain r1 r3 where
    u: "update_prices ts df d (r\<lparr>date := d\<rparr>) = Inr r1" and
    b: "(if day_of_month d = 1
         then bind_err (buy_more_shares ts m r1) (\<lambda>rec2.
                Inr (rec2\<lparr>amount_invested := amount_invested rec2 + m\<rparr>))
         else Inr r1) = Inr r3" and
    v: "revalue ts (r3\<lparr>portfolio_value := Fin 0\<rparr>) = Inr r'"
    unfolding day_step_def by (auto dest!: bind_err_Inr)
  from b have "price r3 = price r1"
    by (auto split: if_splits dest!: bind_err_Inr buy_more_shares_frame)
  with update_prices_price [OF u t] revalue_frame [OF v] show ?thesis by simp
qed

lemma day_step_value:
  assumes step: "day_step ts df m d r = Inr r'"
    and sp: "\<forall>t \<in> fst ` set ts.
      map_of (shares r') t = Some (Fin (S t)) \<and> map_of (price r') t = Some (Fin (P t))"
  shows "portfolio_value r' = Fin (sum_list (map (\<lambda>x. S (fst x) * P (fst x)) ts))"
proof -
  from step obtain r3 where
    v: "revalue ts (r3\<lparr>portfolio_value := Fin 0\<rparr>) = Inr r'"
    unfolding day_step_def by (auto dest!: bind_err_Inr)
  from revalue_frame [OF v] sp have "\<forall>t \<in> fst ` set ts.
      map_of (shares (r3\<lparr>portfolio_value := Fin 0\<rparr>)) t = Some (Fin (S t))
      \<and> map_of (price (r3\<lparr>portfolio_value := Fin 0\<rparr>)) t = Some (Fin (P t))"
    by simp
  from revalue_sum [OF this, of 0] v show ?thesis by simp
qed

lemma hd_record_value:
  assumes run: "get_portfolio tickers df initial_amount monthly_addition = Inr rs"
    and pos: "positive_prices df"
    and dist: "distinct (map fst tickers)"
  shows "rs \<noteq> []
       \<and> (day_of_month (fst (hd (rows df))) \<noteq> 1 \<longrightarrow>
            portfolio_value (hd rs) = Fin initial_amount)
       \<and> (day_of_month (fst (hd (rows df))) = 1 \<longrightarrow>
            portfolio_value (hd rs) = Fin (initial_amount + monthly_addition))"
proof -
  from get_portfolio_first [OF run] obtain r rest rec where
    r: "rows df = r # rest" and f: "first_record tickers df initial_amount = Inr rec" and
    ne: "rs \<noteq> []" and
    s: "day_step tickers df monthly_addition (fst r) rec = Inr (hd rs)" by auto
  from first_record_fields [OF f] obtain ss where
    ss: "first_shares tickers df initial_amount = Inr ss" "shares rec = ss" by blast
  define A where "A = (if day_of_month (fst r) = 1 then initial_amount + monthly_addition
                       else initial_amount)"
  define P where "P t = (case iloc0 df (t @ ''_price'') of Inr (Fin p) \<Rightarrow> p | _ \<Rightarrow> 1)" for t
  define W where "W t = the (map_of tickers t)" for t
  define S where "S t = (if day_of_month (fst r) = 1
      then initial_amount / P t * W t + monthly_addition / P t * W t
      else initial_amount / P t * W t)" for t
  have sp: "\<forall>t \<in> fst ` set tickers.
      map_of (shares (hd rs)) t = Some (Fin (S t)) \<and> map_of (price (hd rs)) t = Some (Fin (P t))
      \<and> 0 < P t"
  proof
    fix t assume t: "t \<in> fst ` set tickers"
    then obtain w where tw: "(t, w) \<in> set tickers" by auto
    with dist have W: "W t = w" by (simp add: W_def)
    from first_shares_exact [OF ss(1) dist tw] ss(2) obtain p0 where
      p0: "iloc0 df (t @ ''_price'') = Inr p0"
        "map_of (shares rec) t = Some (get_number_of_shares initial_amount p0 w)" by auto
    from iloc0_positive [OF pos p0(1)] obtain p where p: "p0 = Fin p" "0 < p"
      by (auto dest: positiveD)
    with p0(1) have P: "P t = p" by (simp add: P_def)
    from day_step_price [OF s t] loc_first [OF r] p0(1) p(1)
    have pr: "map_of (price (hd rs)) t = Some (Fin p)" by simp
    have "map_of (shares (hd rs)) t = Some (Fin (S t))"
    proof (cases "day_of_month (fst r) = 1")
      case True
      from day_step_first_of_month [OF s True dist tw p0(2)] loc_first [OF r] p0(1)
      have "map_of (shares (hd rs)) t =
          Some (fadd (get_number_of_shares initial_amount p0 w)
                     (get_number_of_shares monthly_addition p0 w))" by simp
      with p True W P show ?thesis by (simp add: get_number_of_shares_Fin S_def)
    next
      case False
      from day_step_other_day [OF s False] p0(2) p False W P show ?thesis
        by (simp add: get_number_of_shares_Fin S_def)
    qed
    with pr P p(2) show "map_of (shares (hd rs)) t = Some (Fin (S t))
      \<and> map_of (price (hd rs)) t = Some (Fin (P t)) \<and> 0 < P t" by simp
  qed
  then have sp': "\<forall>t \<in> fst ` set tickers.
      map_of (shares (hd rs)) t = Some (Fin (S t)) \<and> map_of (price (hd rs)) t = Some (Fin (P t))"
    by blast
  have "\<forall>x \<in> set tickers. S (fst x) * P (fst x) = A * snd x"
  proof
    fix x assume x: "x \<in> set tickers"
    then have "(fst x, snd x) \<in> set tickers" by simp
    from map_of_is_SomeI [OF dist this] have W: "W (fst x) = snd x" by (simp add: W_def)
    from x sp have "0 < P (fst x)" by auto
    with W show "S (fst x) * P (fst x) = A * snd x"
      by (simp add: S_def A_def algebra_simps)
  qed
  then have "sum_list (map (\<lambda>x. S (fst x) * P (fst x)) tickers)
      = sum_list (map (\<lambda>x. A * snd x) tickers)"
    by (intro arg_cong [of _ _ sum_list] map_cong) simp_all
  also have "\<dots> = A * sum_list (map snd tickers)"
    by (simp add: sum_list_const_mult)
  also from get_portfolio_Inr(1) [OF run] have "\<dots> = A" by simp
  finally have "portfolio_value (hd rs) = Fin A"
    using day_step_value [OF s sp'] by simp
  with ne r show ?thesis by (simp add: A_def)
qed

lemma two_ticker_day: "day_of_month (fst (hd (rows two_ticker_prices))) = 30"
  by code_simp

section \<open>The first record of a run\<close>


lemma first_day_wf: "wf_frame first_day_prices"
  by (simp add: wf_frame_def first_day_prices_def)

lemma first_day_rows: "rows first_day_prices \<noteq> []"
  by (simp add: first_day_prices_def)

lemma first_day_covers: "covers first_day_prices [(''X'', 1)]"
  by (simp add: covers_def first_day_prices_def)



lemma two_ticker_wf: "wf_frame two_ticker_prices"
  by (simp add: wf_frame_def two_ticker_prices_def)

lemma two_ticker_rows: "rows two_ticker_prices \<noteq> []"
  by (simp add: two_ticker_prices_def)

lemma two_ticker_covers: "covers two_ticker_prices [(''A'', 1 / 2), (''B'', 1 / 2)]"
  by (simp add: covers_def two_ticker_prices_def)



section \<open>Appended records are snapshots\<close>

lemma loop_days_store_refines:
  assumes "loop_days_store ts df m ds (store, addrs) = Inr (store', addrs')"
    and "store \<noteq> []" and "\<forall>a \<in> set addrs. 0 < a \<and> a < length store" and "distinct addrs"
  shows "loop_days ts df m ds (store ! 0) (map (nth store) addrs) = Inr (map (nth store') addrs')
       \<and> distinct addrs' \<and> (\<forall>a \<in> set addrs'. 0 < a \<and> a < length store')"
  using assms
proof (induction ds arbitrary: store addrs)
  case Nil
  then show ?case by simp
next
  case (Cons d ds)
  from Cons.prems(1) obtain rec' where
    s: "day_step ts df m d (store ! 0) = Inr rec'" and
    l: "loop_days_store ts df m ds
          (store[0 := rec'] @ [store[0 := rec'] ! 0], addrs @ [length (store[0 := rec'])])
        = Inr (store', addrs')"
    by (auto simp: Let_def dest!: bind_err_Inr)
  let ?store2 = "store[0 := rec'] @ [store[0 := rec'] ! 0]"
  let ?addrs2 = "addrs @ [length (store[0 := rec'])]"
  from Cons.prems(2) have len: "0 < length store" by simp
  have old: "?store2 ! a = store ! a" if "a \<in> set addrs" for a
    using that Cons.prems(3) by (auto simp: nth_append)
  have new: "?store2 ! length store = rec'" "?store2 ! 0 = rec'"
    using len by (simp_all add: nth_append)
  have m1: "map (nth ?store2) addrs = map (nth store) addrs"
    by (rule map_cong [OF refl]) (rule old)
  have "map (nth ?store2) ?addrs2 = map (nth ?store2) addrs @ [?store2 ! length store]"
    by simp
  then have m: "map (nth ?store2) ?addrs2 = map (nth store) addrs @ [rec']"
    by (simp only: m1 new(1))
  have ne: "?store2 \<noteq> []" by simp
  have rng: "\<forall>a \<in> set ?addrs2. 0 < a \<and> a < length ?store2"
    using Cons.prems(3) len by auto
  have dist: "distinct ?addrs2"
    using Cons.prems(3,4) by auto
  from Cons.IH [OF l ne rng dist] have
    "loop_days ts df m ds (?store2 ! 0) (map (nth ?store2) ?addrs2) = Inr (map (nth store') addrs')"
    and rest: "distinct addrs'" "\<forall>a \<in> set addrs'. 0 < a \<and> a < length store'"
    by blast+
  then have "loop_days ts df m ds rec' (map (nth store) addrs @ [rec']) = Inr (map (nth store') addrs')"
    by (simp only: new(2) m)
  with s rest show ?case by simp
qed

lemma get_portfolio_dates:
  assumes run: "get_portfolio ts df ia ma = Inr rs"
  shows "map date rs = map fst (rows df)"
proof (rule nth_equalityI)
  show "length (map date rs) = length (map fst (rows df))"
    using get_portfolio_length [OF run] by simp
next
  fix i assume "i < length (map date rs)"
  then have i: "i < length (map fst (rows df))" "i < length rs"
    using get_portfolio_length [OF run] by simp_all
  from run obtain rec where
    l: "loop_days ts df ma (map fst (rows df)) rec [] = Inr rs"
    by (auto dest: get_portfolio_Inr(2))
  from loop_days_nth [OF l i(1)] obtain r0 where
    "day_step ts df ma (map fst (rows df) ! i) r0 = Inr (rs ! i)" by auto
  from day_step_date [OF this] i show "map date rs ! i = map fst (rows df) ! i" by simp
qed

text \<open>
  C10. When the run with the explicit store succeeds, the records read at the end from the
  appended addresses are the values the working record had when each day was appended (the
  result of \<open>get_portfolio\<close>, which passes values): the appended objects are pairwise
  different and none is the working record at address 0, so no later day has changed them,
  and the record of each day carries that day's date.
\<close>

theorem records_are_snapshots:
  assumes "get_portfolio_store tickers df initial_amount monthly_addition = Inr st"
  shows "get_portfolio tickers df initial_amount monthly_addition = Inr (read_records st)
       \<and> distinct (snd st) \<and> 0 \<notin> set (snd st)
       \<and> map date (read_records st) = map fst (rows df)"
proof -
  obtain store addrs where st: "st = (store, addrs)" by (cases st)
  from assms st obtain rec where
    one: "sum_list (map snd tickers) = 1" and
    f: "first_record tickers df initial_amount = Inr rec" and
    l: "loop_days_store tickers df monthly_addition (map fst (rows df)) ([rec], [])
          = Inr (store, addrs)"
    by (auto simp: get_portfolio_store_def split: if_splits dest!: bind_err_Inr)
  from loop_days_store_refines [OF l] have
    p: "loop_days tickers df monthly_addition (map fst (rows df)) rec [] = Inr (map (nth store) addrs)"
    and d: "distinct addrs" and r: "\<forall>a \<in> set addrs. 0 < a \<and> a < length store"
    by simp_all
  from one f p st have run:
    "get_portfolio tickers df initial_amount monthly_addition = Inr (read_records st)"
    by (simp add: get_portfolio_def read_records_def)
  from r have "0 \<notin> set addrs" by auto
  with run d st get_portfolio_dates [OF run] show ?thesis by simp
qed

lemma two_ticker_store_run:
  "get_portfolio_store [(''A'', 1 / 2), (''B'', 1 / 2)] two_ticker_prices 100 40
     = Inr two_ticker_store"
  by code_simp

lemma two_ticker_read: "read_records two_ticker_store = two_ticker_records"
  by (simp add: read_records_def two_ticker_store_def two_ticker_records_def)

theorem records_are_snapshots_witness:
  "get_portfolio [(''A'', 1 / 2), (''B'', 1 / 2)] two_ticker_prices 100 40
     = Inr (read_records two_ticker_store)
   \<and> read_records two_ticker_store = two_ticker_records
   \<and> fst two_ticker_store ! 0 = two_ticker_records ! 3
   \<and> distinct (snd two_ticker_store) \<and> 0 \<notin> set (snd two_ticker_store)
   \<and> map date (read_records two_ticker_store) = map fst (rows two_ticker_prices)"
  using records_are_snapshots [OF two_ticker_store_run]
  by (simp add: two_ticker_read) (simp add: two_ticker_store_def)

section \<open>Resampling\<close>

lemma fill_none: "NaN \<notin> set r \<Longrightarrow> length prev = length r \<Longrightarrow>
    map2 (\<lambda>a b. if b = NaN then a else b) prev r = r"
proof (induction r arbitrary: prev)
  case Nil
  then show ?case by simp
next
  case (Cons x r)
  then show ?case by (cases prev) auto
qed

lemma ffill_rows_dense:
  "\<forall>r \<in> set rs. NaN \<notin> set (snd r) \<and> length (snd r) = n \<Longrightarrow> length prev = n \<Longrightarrow>
     ffill_rows prev rs = rs"
proof (induction rs arbitrary: prev)
  case Nil
  then show ?case by simp
next
  case (Cons r rs)
  from Cons.prems have "map2 (\<lambda>a b. if b = NaN then a else b) prev (snd r) = snd r"
    by (intro fill_none) simp_all
  with Cons show ?case by (simp add: Let_def)
qed

lemma last_valid_row_single:
  "NaN \<notin> set r \<Longrightarrow> length r = n \<Longrightarrow> last_valid_row n [r] = r"
  by (simp add: last_valid_row_def fill_none)

lemma upto_filter_single:
  "map fst rs = [lo..hi] \<Longrightarrow> (d, r) \<in> set rs \<Longrightarrow> filter (\<lambda>x. fst x = d) rs = [(d, r)]"
proof (induction rs arbitrary: lo)
  case Nil
  then show ?case by simp
next
  case (Cons x rs)
  from Cons.prems(1) have lo: "lo \<le> hi" "fst x = lo" "map fst rs = [lo + 1..hi]"
    by (auto simp: upto.simps [of lo hi] split: if_splits)
  have gt: "\<forall>y \<in> set rs. lo < fst y"
  proof
    fix y assume "y \<in> set rs"
    then have "fst y \<in> set (map fst rs)" by simp
    with lo(3) show "lo < fst y" by simp
  qed
  show ?case
  proof (cases "x = (d, r)")
    case True
    with lo(2) gt have "filter (\<lambda>x. fst x = d) rs = []"
      by (auto simp: filter_empty_conv)
    with True show ?thesis by simp
  next
    case False
    with Cons.prems(2) have in_rs: "(d, r) \<in> set rs" by simp
    with gt have "lo < d" by force
    with lo(2) Cons.IH [OF lo(3) in_rs] show ?thesis by simp
  qed
qed

text \<open>
  C7. A well-formed table whose index is the contiguous run of days from \<open>lo\<close> to
  \<open>hi\<close>, one row per day, and that has no missing value is returned unchanged by
  \<open>resample_data\<close>.
\<close>

theorem resample_data_dense:
  assumes wf: "wf_frame df" and idx: "map fst (rows df) = [lo..hi]"
    and nn: "\<forall>r \<in> set (rows df). NaN \<notin> set (snd r)"
  shows "resample_data df = df"
proof -
  have r1: "resample_1D_last df = df"
  proof (cases "rows df = []")
    case True
    then show ?thesis by (simp add: resample_1D_last_def)
  next
    case False
    with idx have le: "lo \<le> hi" by (cases "lo \<le> hi") auto
    then have mm: "Min (set (map fst (rows df))) = lo" "Max (set (map fst (rows df))) = hi"
      unfolding idx by (auto intro: Min_eqI Max_eqI)
    have "map (\<lambda>d. (d, last_valid_row (length (columns df))
                        (map snd (filter (\<lambda>r. fst r = d) (rows df))))) (map fst (rows df))
          = rows df"
    proof (rule nth_equalityI)
      show "length (map (\<lambda>d. (d, last_valid_row (length (columns df))
                        (map snd (filter (\<lambda>r. fst r = d) (rows df))))) (map fst (rows df)))
            = length (rows df)" by simp
    next
      fix i assume "i < length (map (\<lambda>d. (d, last_valid_row (length (columns df))
                        (map snd (filter (\<lambda>r. fst r = d) (rows df))))) (map fst (rows df)))"
      then have i: "i < length (rows df)" by simp
      obtain d r where dr: "rows df ! i = (d, r)" by (cases "rows df ! i")
      with i have mem: "(d, r) \<in> set (rows df)" by (metis nth_mem)
      from upto_filter_single [OF idx mem]
      have f: "filter (\<lambda>r. fst r = d) (rows df) = [(d, r)]" .
      from mem wf nn have "NaN \<notin> set r" "length r = length (columns df)"
        by (auto simp: wf_frame_def)
      with f dr i show "map (\<lambda>d. (d, last_valid_row (length (columns df))
                        (map snd (filter (\<lambda>r. fst r = d) (rows df))))) (map fst (rows df)) ! i
            = rows df ! i"
        by (simp add: last_valid_row_single)
    qed
    with False mm idx show ?thesis by (simp add: resample_1D_last_def)
  qed
  have "ffill_rows (replicate (length (columns df)) NaN) (rows df) = rows df"
    using wf nn by (intro ffill_rows_dense [where n = "length (columns df)"])
      (auto simp: wf_frame_def)
  with r1 show ?thesis by (simp add: resample_data_def fillna_ffill_def)
qed

lemma two_ticker_index: "map fst (rows two_ticker_prices) = [18657..18660]"
proof -
  have "[18657..18660] = [18657, 18658, 18659, 18660 :: int]" by code_simp
  then show ?thesis by (simp add: two_ticker_prices_def)
qed

lemma two_ticker_no_NaN: "\<forall>r \<in> set (rows two_ticker_prices). NaN \<notin> set (snd r)"
  by (simp add: two_ticker_prices_def)

theorem resample_data_dense_witness: "resample_data two_ticker_prices = two_ticker_prices"
  using resample_data_dense [OF two_ticker_wf two_ticker_index two_ticker_no_NaN] .

lemma fill_nth: "j < length prev \<Longrightarrow> j < length r \<Longrightarrow>
    map2 (\<lambda>a b. if b = NaN then a else b) prev r ! j = (if r ! j = NaN then prev ! j else r ! j)"
  by simp

lemma ffill_carry:
  assumes "\<forall>d. length (g d) = n" and "length prev = n" and "j < n" and "prev ! j = v"
    and "a \<le> e" and "e \<le> b" and "\<forall>d'. a \<le> d' \<and> d' \<le> e \<longrightarrow> g d' ! j = NaN"
  shows "\<exists>r'. map_of (ffill_rows prev (map (\<lambda>d. (d, g d)) [a..b])) e = Some r' \<and> r' ! j = v"
  using assms
proof (induction a b arbitrary: prev rule: upto.induct)
  case (1 a b)
  let ?filled = "map2 (\<lambda>a b. if b = NaN then a else b) prev (g a)"
  from "1.prems" have ab: "a \<le> b" by simp
  then have u: "[a..b] = a # [a + 1..b]" by (simp add: upto.simps)
  from "1.prems" have "g a ! j = NaN" by simp
  with "1.prems"(1,2,3,4) have fj: "?filled ! j = v" by (simp add: fill_nth)
  from "1.prems"(1,2) have fl: "length ?filled = n" by simp
  show ?case
  proof (cases "e = a")
    case True
    with u fj show ?thesis by (simp add: Let_def)
  next
    case False
    with "1.prems"(5) have "a + 1 \<le> e" by simp
    from "1.IH" [OF ab "1.prems"(1) fl "1.prems"(3) fj this "1.prems"(6)] "1.prems"(7)
    have "\<exists>r'. map_of (ffill_rows ?filled (map (\<lambda>d. (d, g d)) [a + 1..b])) e = Some r' \<and> r' ! j = v"
      by simp
    with u False show ?thesis by (simp add: Let_def)
  qed
qed

lemma ffill_observed:
  assumes "\<forall>d. length (g d) = n" and "length prev = n" and "j < n"
    and "g d ! j = v" and "v \<noteq> NaN"
    and "a \<le> d" and "d \<le> e" and "e \<le> b"
    and "\<forall>d'. d < d' \<and> d' \<le> e \<longrightarrow> g d' ! j = NaN"
  shows "\<exists>r'. map_of (ffill_rows prev (map (\<lambda>d. (d, g d)) [a..b])) e = Some r' \<and> r' ! j = v"
  using assms
proof (induction a b arbitrary: prev rule: upto.induct)
  case (1 a b)
  let ?filled = "map2 (\<lambda>a b. if b = NaN then a else b) prev (g a)"
  from "1.prems" have ab: "a \<le> b" by simp
  then have u: "[a..b] = a # [a + 1..b]" by (simp add: upto.simps)
  from "1.prems"(1,2) have fl: "length ?filled = n" by simp
  show ?case
  proof (cases "a = d")
    case True
    with "1.prems"(1,2,3,4,5) have fj: "?filled ! j = v" by (simp add: fill_nth)
    show ?thesis
    proof (cases "e = d")
      case True
      with \<open>a = d\<close> u fj show ?thesis by (simp add: Let_def)
    next
      case False
      with "1.prems"(7) \<open>a = d\<close> have "a + 1 \<le> e" by simp
      moreover from "1.prems"(9) \<open>a = d\<close>
      have "\<forall>d'. a + 1 \<le> d' \<and> d' \<le> e \<longrightarrow> g d' ! j = NaN" by simp
      ultimately have "\<exists>r'. map_of (ffill_rows ?filled (map (\<lambda>d. (d, g d)) [a + 1..b])) e
          = Some r' \<and> r' ! j = v"
        using "1.prems"(1,3,8) fl fj by (intro ffill_carry) simp_all
      with u False \<open>a = d\<close> show ?thesis by (simp add: Let_def)
    qed
  next
    case False
    with "1.prems"(6) have "a + 1 \<le> d" by simp
    from "1.IH" [OF ab "1.prems"(1) fl "1.prems"(3,4,5) this "1.prems"(7,8,9)]
    have "\<exists>r'. map_of (ffill_rows ?filled (map (\<lambda>d. (d, g d)) [a + 1..b])) e = Some r' \<and> r' ! j = v" .
    moreover from False "1.prems"(6,7) have "e \<noteq> a" by simp
    ultimately show ?thesis using u by (simp add: Let_def)
  qed
qed

lemma last_valid_row_length:
  "\<forall>r \<in> set rs. length r = n \<Longrightarrow> length (last_valid_row n rs) = n"
proof -
  have "\<forall>r \<in> set rs. length r = n \<Longrightarrow> length acc = n \<Longrightarrow>
      length (foldl (\<lambda>acc r. map2 (\<lambda>a b. if b = NaN then a else b) acc r) acc rs) = n" for acc
    by (induction rs arbitrary: acc) simp_all
  then show "\<forall>r \<in> set rs. length r = n \<Longrightarrow> length (last_valid_row n rs) = n"
    by (simp add: last_valid_row_def)
qed

lemma distinct_filter_single:
  "distinct (map fst rs) \<Longrightarrow> (d, r) \<in> set rs \<Longrightarrow> filter (\<lambda>x. fst x = d) rs = [(d, r)]"
proof (induction rs)
  case Nil
  then show ?case by simp
next
  case (Cons x rs)
  show ?case
  proof (cases "x = (d, r)")
    case True
    with Cons.prems(1) have "\<forall>y \<in> set rs. fst y \<noteq> d" by auto
    then have "filter (\<lambda>x. fst x = d) rs = []" by (auto simp: filter_empty_conv)
    with True show ?thesis by simp
  next
    case False
    with Cons.prems have "(d, r) \<in> set rs" "distinct (map fst rs)" by auto
    moreover from this Cons.prems(1) have "fst x \<noteq> d"
      by (auto simp: image_iff)
    ultimately show ?thesis using Cons.IH by simp
  qed
qed

text \<open>
  C8. In a well-formed table with one row per date, let column \<open>j\<close> have an observed
  value on day \<open>d\<close> and no observed value on the days after \<open>d\<close> up to \<open>e\<close> (the rows
  of those days are absent or hold NaN in that column), \<open>e\<close> within the range of the
  table. Then the resampled table has a row for day \<open>e\<close>, whose cell in column \<open>j\<close> is
  the value observed on day \<open>d\<close>. Only column \<open>j\<close> is constrained: the other columns
  are filled on their own.
\<close>

theorem resample_data_forward_fill:
  assumes wf: "wf_frame df" and dist: "distinct (map fst (rows df))"
    and j: "j < length (columns df)"
    and obs: "(d, r) \<in> set (rows df)" and v: "r ! j \<noteq> NaN"
    and gap: "\<forall>x \<in> set (rows df). d < fst x \<and> fst x \<le> e \<longrightarrow> snd x ! j = NaN"
    and de: "d \<le> e" and e: "e \<le> Max (set (map fst (rows df)))"
  shows "\<exists>r'. map_of (rows (resample_data df)) e = Some r' \<and> r' ! j = r ! j"
proof -
  let ?n = "length (columns df)"
  let ?lo = "Min (set (map fst (rows df)))" and ?hi = "Max (set (map fst (rows df)))"
  define g where "g d = last_valid_row ?n (map snd (filter (\<lambda>r. fst r = d) (rows df)))" for d
  from obs have ne: "rows df \<noteq> []" by auto
  then have rows: "rows (resample_data df)
      = ffill_rows (replicate ?n NaN) (map (\<lambda>d. (d, g d)) [?lo..?hi])"
    by (simp add: resample_data_def fillna_ffill_def resample_1D_last_def g_def)
  have len: "\<forall>d. length (g d) = ?n"
    using wf unfolding g_def by (auto intro!: last_valid_row_length simp: wf_frame_def)
  from obs wf have lr: "length r = ?n" by (auto simp: wf_frame_def)
  have at: "g d' ! j = snd x ! j" if "x \<in> set (rows df)" "fst x = d'" for x d'
  proof -
    from that have "(d', snd x) \<in> set (rows df)" by (cases x) auto
    from distinct_filter_single [OF dist this] have "g d' = last_valid_row ?n [snd x]"
      by (simp add: g_def)
    moreover from that wf have "length (snd x) = ?n" by (auto simp: wf_frame_def)
    ultimately show ?thesis using j
      by (simp add: last_valid_row_def fill_nth)
  qed
  have none: "g d' ! j = NaN" if "d' \<notin> fst ` set (rows df)" for d'
  proof -
    from that have "filter (\<lambda>r. fst r = d') (rows df) = []"
      by (auto simp: filter_empty_conv)
    with j show ?thesis by (simp add: g_def last_valid_row_def)
  qed
  from at [of "(d, r)" d] obs have gd: "g d ! j = r ! j" by simp
  have gaps: "\<forall>d'. d < d' \<and> d' \<le> e \<longrightarrow> g d' ! j = NaN"
  proof (intro allI impI)
    fix d' assume d': "d < d' \<and> d' \<le> e"
    show "g d' ! j = NaN"
    proof (cases "d' \<in> fst ` set (rows df)")
      case True
      then obtain x where x: "x \<in> set (rows df)" "fst x = d'" by auto
      with gap d' have "snd x ! j = NaN" by auto
      with at [OF x] show ?thesis by simp
    next
      case False
      then show ?thesis by (rule none)
    qed
  qed
  from obs have "d \<in> set (map fst (rows df))" by force
  then have lo: "?lo \<le> d" by (intro Min_le) simp_all
  from ffill_observed [OF len _ j gd v lo de e gaps, of "replicate ?n NaN"] rows
  show ?thesis by simp
qed

lemma weekend_resampled:
  "resample_data weekend_prices =
     \<lparr>columns = [''A_price'', ''B_price''],
      rows = [(18635, [Fin 10, Fin 7]), (18636, [Fin 10, Fin 9]),
              (18637, [Fin 10, Fin 9]), (18638, [Fin 11, Fin 8])]\<rparr>"
  by code_simp

lemma weekend_wf: "wf_frame weekend_prices"
  by (simp add: wf_frame_def weekend_prices_def)

lemma weekend_gap:
  "\<forall>x \<in> set (rows weekend_prices). 18635 < fst x \<and> fst x \<le> 18637 \<longrightarrow> snd x ! 0 = NaN"
  by (simp add: weekend_prices_def)

theorem resample_data_forward_fill_witness:
  "(\<exists>r'. map_of (rows (resample_data weekend_prices)) 18637 = Some r'
        \<and> r' ! 0 = [Fin 10, Fin 7] ! 0)
   \<and> map_of (rows (resample_data weekend_prices)) 18637 = Some [Fin 10, Fin 9]"
proof -
  have dist: "distinct (map fst (rows weekend_prices))" by (simp add: weekend_prices_def)
  have j: "0 < length (columns weekend_prices)" by (simp add: weekend_prices_def)
  have obs: "(18635, [Fin 10, Fin 7]) \<in> set (rows weekend_prices)"
    by (simp add: weekend_prices_def)
  have v: "[Fin 10, Fin 7] ! 0 \<noteq> NaN" by simp
  have de: "(18635 :: int) \<le> 18637" by simp
  have e: "18637 \<le> Max (set (map fst (rows weekend_prices)))"
    by (simp add: weekend_prices_def)
  from resample_data_forward_fill [OF weekend_wf dist j obs v weekend_gap de e]
  show ?thesis by (simp add: weekend_resampled)
qed

section \<open>Loading\<close>

lemma load_columns_Inl:
  "load_columns history ts s e = Inl err \<Longrightarrow>
     \<exists>t \<in> set ts. history t s e \<noteq> [] \<and> s < Min (set (map fst (history t s e)))
       \<and> err = DataAvailabilityError t (Min (set (map fst (history t s e))))"
  by (induction ts) (auto simp: Let_def split: if_splits dest!: bind_err_Inl)

lemma load_columns_Inr:
  "load_columns history ts s e = Inr data \<Longrightarrow>
     \<forall>t \<in> set ts. \<not> (history t s e \<noteq> [] \<and> s < Min (set (map fst (history t s e))))"
  by (induction ts arbitrary: data) (auto simp: Let_def split: if_splits dest!: bind_err_Inr)

lemma concat_columns_err: "concat_columns data = Inl err \<Longrightarrow> err = NoObjectsError"
  by (auto simp: concat_columns_def split: if_splits)

lemma load_data_Inl:
  "load_data history tickers s e = Inl err \<Longrightarrow>
     load_columns history (map fst tickers) s e = Inl err \<or> err = NoObjectsError"
  by (auto simp: load_data_def dest!: bind_err_Inl dest: concat_columns_err)

text \<open>
  C9. When some requested ticker has a history whose earliest date is later than the start
  date, \<open>load_data\<close> raises the availability error, which names such a ticker and the
  earliest date of its history, and \<open>simulate_portfolio\<close> ends with the same error and
  no ledger. When no requested ticker is in that case, \<open>load_data\<close> raises no
  availability error.
\<close>

theorem load_data_availability:
  "((\<exists>t \<in> fst ` set tickers.
        history t start_date end_date \<noteq> []
        \<and> start_date < Min (set (map fst (history t start_date end_date))))
     \<longrightarrow> (\<exists>t fd. load_data history tickers start_date end_date = Inl (DataAvailabilityError t fd)
            \<and> t \<in> fst ` set tickers
            \<and> fd = Min (set (map fst (history t start_date end_date)))
            \<and> start_date < fd
            \<and> simulate_portfolio history tickers start_date end_date
                 initial_amount monthly_addition = Inl (DataAvailabilityError t fd)))
   \<and> (\<not> (\<exists>t \<in> fst ` set tickers.
        history t start_date end_date \<noteq> []
        \<and> start_date < Min (set (map fst (history t start_date end_date))))
     \<longrightarrow> (\<forall>t fd. load_data history tickers start_date end_date
                   \<noteq> Inl (DataAvailabilityError t fd)))"
proof (intro conjI impI)
  assume bad: "\<exists>t \<in> fst ` set tickers.
        history t start_date end_date \<noteq> []
        \<and> start_date < Min (set (map fst (history t start_date end_date)))"
  have "\<exists>err. load_columns history (map fst tickers) start_date end_date = Inl err"
  proof (cases "load_columns history (map fst tickers) start_date end_date")
    case (Inl err)
    then show ?thesis by blast
  next
    case (Inr data)
    from load_columns_Inr [OF this] bad show ?thesis by auto
  qed
  then obtain err where
    err: "load_columns history (map fst tickers) start_date end_date = Inl err" by blast
  from load_columns_Inl [OF err] obtain t where
    t: "t \<in> fst ` set tickers" "start_date < Min (set (map fst (history t start_date end_date)))"
      "err = DataAvailabilityError t (Min (set (map fst (history t start_date end_date))))"
    by auto
  from err have "load_data history tickers start_date end_date = Inl err"
    by (simp add: load_data_def)
  moreover from this have "simulate_portfolio history tickers start_date end_date
      initial_amount monthly_addition = Inl err"
    by (simp add: simulate_portfolio_def)
  ultimately show "\<exists>t fd. load_data history tickers start_date end_date = Inl (DataAvailabilityError t fd)
            \<and> t \<in> fst ` set tickers
            \<and> fd = Min (set (map fst (history t start_date end_date)))
            \<and> start_date < fd
            \<and> simulate_portfolio history tickers start_date end_date
                 initial_amount monthly_addition = Inl (DataAvailabilityError t fd)"
    using t by blast
next
  assume good: "\<not> (\<exists>t \<in> fst ` set tickers.
        history t start_date end_date \<noteq> []
        \<and> start_date < Min (set (map fst (history t start_date end_date))))"
  show "\<forall>t fd. load_data history tickers start_date end_date \<noteq> Inl (DataAvailabilityError t fd)"
  proof (intro allI notI)
    fix t fd
    assume "load_data history tickers start_date end_date = Inl (DataAvailabilityError t fd)"
    from load_data_Inl [OF this]
    have "load_columns history (map fst tickers) start_date end_date
        = Inl (DataAvailabilityError t fd)" by simp
    from load_columns_Inl [OF this] good show False by auto
  qed
qed

lemma sample_late:
  "\<exists>t \<in> fst ` set [(''A'', 1 / 2 :: rat), (''B'', 1 / 2)].
     sample_history t 3 10 \<noteq> [] \<and> 3 < Min (set (map fst (sample_history t 3 10)))"
  by (simp add: sample_history_def)

lemma sample_covered:
  "\<not> (\<exists>t \<in> fst ` set [(''A'', 1 / 2 :: rat), (''B'', 1 / 2)].
     sample_history t 4 10 \<noteq> [] \<and> 4 < Min (set (map fst (sample_history t 4 10))))"
  by (simp add: sample_history_def)

lemma sample_load_late:
  "load_data sample_history [(''A'', 1 / 2), (''B'', 1 / 2)] 3 10
     = Inl (DataAvailabilityError ''B'' 4)"
  by code_simp

theorem load_data_availability_witness:
  "(\<exists>t fd. load_data sample_history [(''A'', 1 / 2), (''B'', 1 / 2)] 3 10
              = Inl (DataAvailabilityError t fd)
        \<and> fd = Min (set (map fst (sample_history t 3 10))) \<and> 3 < fd
        \<and> simulate_portfolio sample_history [(''A'', 1 / 2), (''B'', 1 / 2)] 3 10 100 40
              = Inl (DataAvailabilityError t fd))
   \<and> load_data sample_history [(''A'', 1 / 2), (''B'', 1 / 2)] 3 10
        = Inl (DataAvailabilityError ''B'' 4)
   \<and> (\<forall>t fd. load_data sample_history [(''A'', 1 / 2), (''B'', 1 / 2)] 4 10
              \<noteq> Inl (DataAvailabilityError t fd))"
  using load_data_availability [of "[(''A'', 1 / 2), (''B'', 1 / 2)]" sample_history 3 10 100 40]
    load_data_availability [of "[(''A'', 1 / 2), (''B'', 1 / 2)]" sample_history 4 10 100 40]
    sample_late sample_covered sample_load_late
  by blast

section \<open>The three-month scenario\<close>



end
